theory Spec2Isabelle
  imports Complex_Main
begin

section \<open>Text and the JSON runtime\<close>

text \<open>
  Text is modelled as \<^typ>\<open>string\<close>, the UTF-8 bytes of the JavaScript string. On the wire
  the bytes of the response body and the text that \<^verbatim>\<open>TextDecoder\<close> yields from them are
  then the same list: a streaming decoder holds an incomplete multi-byte sequence back
  until the next read, and in the model those bytes wait in \<^verbatim>\<open>buffer\<close> instead. The
  operations the program applies to text (\<^verbatim>\<open>split('\n')\<close>, \<^verbatim>\<open>startsWith('data: ')\<close>,
  \<^verbatim>\<open>slice(6)\<close>, \<^verbatim>\<open>includes\<close> of an ASCII symbol) act on ASCII bytes, which never occur
  inside a multi-byte sequence. Where a body is not well-formed UTF-8 or starts with a
  byte-order mark, the decoder substitutes replacement characters or drops the mark; the
  parts of a body are then to be read as the text the decoder returned for each read.
\<close>

abbreviation DQ :: char where "DQ \<equiv> CHR 0x22"
abbreviation BSL :: char where "BSL \<equiv> CHR 0x5C"
abbreviation NL :: char where "NL \<equiv> CHR 0x0A"

text \<open>
  A value as \<^verbatim>\<open>JSON.parse\<close> returns it. An object keeps its members in source order
  (a repeated key is looked up at its last occurrence, see \<open>get_prop\<close> below); a number is
  kept as the decimal literal that denotes it.
\<close>

datatype json =
    JNull
  | JBool bool
  | JNum string
  | JStr string
  | JArr "json list"
  | JObj "(string \<times> json) list"

subsection \<open>JSON.stringify\<close>

definition hexdigit :: "nat \<Rightarrow> char" where
  "hexdigit n = ''0123456789abcdef'' ! (n mod 16)"

text \<open>
  QuoteJSONString of ECMA-262: the two-character escapes for backspace, tab, line feed,
  form feed, carriage return, the quote and the backslash; \<^verbatim>\<open>\u00xx\<close> (lower-case
  hex) for every other code below 0x20; everything else unchanged.
\<close>

definition escape_char :: "char \<Rightarrow> string" where
  "escape_char c =
     (if c = CHR 0x08 then [BSL, CHR ''b'']
      else if c = CHR 0x09 then [BSL, CHR ''t'']
      else if c = NL then [BSL, CHR ''n'']
      else if c = CHR 0x0C then [BSL, CHR ''f'']
      else if c = CHR 0x0D then [BSL, CHR ''r'']
      else if c = DQ then [BSL, DQ]
      else if c = BSL then [BSL, BSL]
      else if (of_char c :: nat) < 32
        then [BSL, CHR ''u'', CHR ''0'', CHR ''0'',
              hexdigit (of_char c div 16), hexdigit (of_char c mod 16)]
      else [c])"

definition quote_string :: "string \<Rightarrow> string" where
  "quote_string s = DQ # concat (map escape_char s) @ [DQ]"

fun join :: "string \<Rightarrow> string list \<Rightarrow> string" where
  "join sep [] = []"
| "join sep [x] = x"
| "join sep (x # y # ys) = x @ sep @ join sep (y # ys)"

text \<open>
  \<^verbatim>\<open>JSON.stringify\<close> without indentation. A number prints as the literal that denotes
  it; the gateway never serialises one.
\<close>

fun JSON_stringify :: "json \<Rightarrow> string" where
  "JSON_stringify JNull = ''null''"
| "JSON_stringify (JBool b) = (if b then ''true'' else ''false'')"
| "JSON_stringify (JNum l) = l"
| "JSON_stringify (JStr s) = quote_string s"
| "JSON_stringify (JArr xs) = ''['' @ join '','' (map JSON_stringify xs) @ '']''"
| "JSON_stringify (JObj ms) =
     ''{'' @ join '','' (map (\<lambda>(k, v). quote_string k @ '':'' @ JSON_stringify v) ms) @ ''}''"

subsection \<open>JSON.parse: the lexer\<close>

datatype token =
    TLBrace | TRBrace | TLBrack | TRBrack | TColon | TComma
  | TStr string | TNum string | TTrue | TFalse | TNull

definition is_ws :: "char \<Rightarrow> bool" where
  "is_ws c \<longleftrightarrow> c = CHR '' '' \<or> c = CHR 0x09 \<or> c = NL \<or> c = CHR 0x0D"

definition is_digit :: "char \<Rightarrow> bool" where
  "is_digit c \<longleftrightarrow> 48 \<le> (of_char c :: nat) \<and> (of_char c :: nat) \<le> 57"

definition hexval :: "char \<Rightarrow> nat option" where
  "hexval c =
     (let n = (of_char c :: nat) in
      if 48 \<le> n \<and> n \<le> 57 then Some (n - 48)
      else if 97 \<le> n \<and> n \<le> 102 then Some (n - 87)
      else if 65 \<le> n \<and> n \<le> 70 then Some (n - 55)
      else None)"

fun hex4 :: "string \<Rightarrow> (nat \<times> string) option" where
  "hex4 (a # b # c # d # r) =
     (case (hexval a, hexval b, hexval c, hexval d) of
        (Some x, Some y, Some z, Some w) \<Rightarrow> Some (((x * 16 + y) * 16 + z) * 16 + w, r)
      | _ \<Rightarrow> None)"
| "hex4 _ = None"

text \<open>The UTF-8 bytes of a code point (a lone surrogate gets its three-byte form).\<close>

definition utf8 :: "nat \<Rightarrow> string" where
  "utf8 u =
     (if u < 0x80 then [char_of u]
      else if u < 0x800 then [char_of (0xC0 + u div 64), char_of (0x80 + u mod 64)]
      else if u < 0x10000 then
        [char_of (0xE0 + u div 4096), char_of (0x80 + u div 64 mod 64), char_of (0x80 + u mod 64)]
      else
        [char_of (0xF0 + u div 262144), char_of (0x80 + u div 4096 mod 64),
         char_of (0x80 + u div 64 mod 64), char_of (0x80 + u mod 64)])"

text \<open>
  What follows \<^verbatim>\<open>\u\<close> in a string: four hex digits, and when they are a high
  surrogate and an escaped low surrogate comes next, the pair is one code point.
\<close>

definition unicode_escape :: "string \<Rightarrow> (string \<times> string) option" where
  "unicode_escape r =
     (case hex4 r of
        None \<Rightarrow> None
      | Some (u, r1) \<Rightarrow>
          if 0xD800 \<le> u \<and> u \<le> 0xDBFF then
            (case r1 of
               e # f # r2 \<Rightarrow>
                 if e = BSL \<and> f = CHR ''u'' then
                   (case hex4 r2 of
                      Some (l, r3) \<Rightarrow>
                        if 0xDC00 \<le> l \<and> l \<le> 0xDFFF
                        then Some (utf8 (0x10000 + (u - 0xD800) * 0x400 + (l - 0xDC00)), r3)
                        else Some (utf8 u, r1)
                    | None \<Rightarrow> Some (utf8 u, r1))
                 else Some (utf8 u, r1)
             | _ \<Rightarrow> Some (utf8 u, r1))
          else Some (utf8 u, r1))"

definition simple_escape :: "char \<Rightarrow> char option" where
  "simple_escape e =
     (if e = DQ then Some DQ
      else if e = BSL then Some BSL
      else if e = CHR ''/'' then Some (CHR ''/'')
      else if e = CHR ''b'' then Some (CHR 0x08)
      else if e = CHR ''f'' then Some (CHR 0x0C)
      else if e = CHR ''n'' then Some NL
      else if e = CHR ''r'' then Some (CHR 0x0D)
      else if e = CHR ''t'' then Some (CHR 0x09)
      else None)"

definition prepend :: "string \<Rightarrow> (string \<times> string) option \<Rightarrow> (string \<times> string) option" where
  "prepend p r = (case r of None \<Rightarrow> None | Some (s, rest) \<Rightarrow> Some (p @ s, rest))"

lemma hex4_shorter: "hex4 r = Some (u, r') \<Longrightarrow> length r' < length r"
  by (induction r rule: hex4.induct) (auto split: option.splits)

lemma unicode_escape_shorter: "unicode_escape r = Some (p, r') \<Longrightarrow> length r' < length r"
  by (auto simp: unicode_escape_def split: option.splits if_splits list.splits
           dest!: hex4_shorter)

text \<open>
  The body of a string literal, after its opening quote: the decoded text and what
  follows the closing quote. A raw control character, an unknown escape and a missing
  closing quote are syntax errors.
\<close>

function lex_string :: "string \<Rightarrow> (string \<times> string) option" where
  "lex_string [] = None"
| "lex_string (c # cs) =
     (if c = DQ then Some ([], cs)
      else if c = BSL then
        (case cs of
           [] \<Rightarrow> None
         | e # r \<Rightarrow>
             if e = CHR ''u'' then
               (case unicode_escape r of
                  None \<Rightarrow> None
                | Some (p, r') \<Rightarrow> prepend p (lex_string r'))
             else
               (case simple_escape e of
                  None \<Rightarrow> None
                | Some x \<Rightarrow> prepend [x] (lex_string r)))
      else if (of_char c :: nat) < 32 then None
      else prepend [c] (lex_string cs))"
  by pat_completeness auto
termination
  by (relation "measure length") (auto dest: unicode_escape_shorter)

text \<open>
  A number literal:
  \<^verbatim>\<open>-? (0 | [1-9][0-9]*) (. [0-9]+)? ([eE] [+-]? [0-9]+)?\<close>.
\<close>

definition lex_int :: "string \<Rightarrow> (string \<times> string) option" where
  "lex_int cs =
     (case cs of
        [] \<Rightarrow> None
      | c # r \<Rightarrow>
          if c = CHR ''0'' then Some ([c], r)
          else if is_digit c then Some (takeWhile is_digit cs, dropWhile is_digit cs)
          else None)"

definition lex_frac :: "string \<Rightarrow> (string \<times> string) option" where
  "lex_frac cs =
     (case cs of
        c # r \<Rightarrow>
          if c = CHR ''.'' then
            (if takeWhile is_digit r = [] then None
             else Some (c # takeWhile is_digit r, dropWhile is_digit r))
          else Some ([], cs)
      | [] \<Rightarrow> Some ([], cs))"

definition lex_sign :: "string \<Rightarrow> string \<times> string" where
  "lex_sign cs =
     (case cs of
        c # r \<Rightarrow> if c = CHR ''+'' \<or> c = CHR ''-'' then ([c], r) else ([], cs)
      | [] \<Rightarrow> ([], cs))"

definition lex_exp :: "string \<Rightarrow> (string \<times> string) option" where
  "lex_exp cs =
     (case cs of
        c # r \<Rightarrow>
          if c = CHR ''e'' \<or> c = CHR ''E'' then
            (case lex_sign r of
               (sg, r') \<Rightarrow>
                 if takeWhile is_digit r' = [] then None
                 else Some (c # sg @ takeWhile is_digit r', dropWhile is_digit r'))
          else Some ([], cs)
      | [] \<Rightarrow> Some ([], cs))"

definition lex_number :: "string \<Rightarrow> (string \<times> string) option" where
  "lex_number cs =
     (let (minus, r0) = (case cs of
                           c # r \<Rightarrow> if c = CHR ''-'' then ([c], r) else ([], cs)
                         | [] \<Rightarrow> ([], cs))
      in case lex_int r0 of
           None \<Rightarrow> None
         | Some (i, r1) \<Rightarrow>
             (case lex_frac r1 of
                None \<Rightarrow> None
              | Some (f, r2) \<Rightarrow>
                  (case lex_exp r2 of
                     None \<Rightarrow> None
                   | Some (e, r3) \<Rightarrow> Some (minus @ i @ f @ e, r3))))"

lemma length_dropWhile_le': "length (dropWhile P xs) \<le> length xs"
  by (induction xs) auto

lemma lex_int_shorter: "lex_int cs = Some (i, r) \<Longrightarrow> length r < length cs"
  using length_dropWhile_le' [of is_digit "tl cs"]
  by (cases cs) (auto simp: lex_int_def split: if_splits)

lemma lex_frac_shorter: "lex_frac cs = Some (f, r) \<Longrightarrow> length r \<le> length cs"
  using length_dropWhile_le' [of is_digit "tl cs"]
  by (cases cs) (auto simp: lex_frac_def split: if_splits)

lemma lex_sign_shorter: "lex_sign cs = (sg, r) \<Longrightarrow> length r \<le> length cs"
  by (cases cs) (auto simp: lex_sign_def split: if_splits)

lemma lex_exp_shorter: "lex_exp cs = Some (e, r) \<Longrightarrow> length r \<le> length cs"
proof (cases cs)
  case Nil
  then show "lex_exp cs = Some (e, r) \<Longrightarrow> length r \<le> length cs"
    by (simp add: lex_exp_def)
next
  case (Cons c r0)
  assume a: "lex_exp cs = Some (e, r)"
  obtain sg r' where s: "lex_sign r0 = (sg, r')" by (cases "lex_sign r0")
  have "length r' \<le> length r0" using s by (rule lex_sign_shorter)
  moreover have "length (dropWhile is_digit r') \<le> length r'"
    by (rule length_dropWhile_le')
  ultimately show "length r \<le> length cs"
    using a Cons s by (auto simp: lex_exp_def split: if_splits)
qed

lemma lex_number_shorter: "lex_number cs = Some (l, r) \<Longrightarrow> length r < length cs"
proof -
  assume a: "lex_number cs = Some (l, r)"
  define r0 where "r0 = (case cs of c # t \<Rightarrow> if c = CHR ''-'' then t else cs | [] \<Rightarrow> cs)"
  have r0: "length r0 \<le> length cs"
    by (cases cs) (auto simp: r0_def)
  from a obtain i r1 f r2 e where
    "lex_int r0 = Some (i, r1)" "lex_frac r1 = Some (f, r2)" "lex_exp r2 = Some (e, r)"
    by (cases cs) (auto simp: lex_number_def r0_def split: option.splits if_splits)
  then have "length r1 < length r0" "length r2 \<le> length r1" "length r \<le> length r2"
    by (auto dest: lex_int_shorter lex_frac_shorter lex_exp_shorter)
  with r0 show ?thesis by simp
qed

definition starts_with :: "string \<Rightarrow> string \<Rightarrow> bool" where
  "starts_with s p \<longleftrightarrow> take (length p) s = p"

definition cons_token :: "token \<Rightarrow> token list option \<Rightarrow> token list option" where
  "cons_token t r = map_option ((#) t) r"

function lex :: "string \<Rightarrow> token list option" where
  "lex [] = Some []"
| "lex (c # cs) =
     (if is_ws c then lex cs
      else if c = CHR ''{'' then cons_token TLBrace (lex cs)
      else if c = CHR ''}'' then cons_token TRBrace (lex cs)
      else if c = CHR ''['' then cons_token TLBrack (lex cs)
      else if c = CHR '']'' then cons_token TRBrack (lex cs)
      else if c = CHR '':'' then cons_token TColon (lex cs)
      else if c = CHR '','' then cons_token TComma (lex cs)
      else if c = DQ then
        (case lex_string cs of
           None \<Rightarrow> None
         | Some (s, r) \<Rightarrow> cons_token (TStr s) (lex r))
      else if c = CHR ''-'' \<or> is_digit c then
        (case lex_number (c # cs) of
           None \<Rightarrow> None
         | Some (l, r) \<Rightarrow> cons_token (TNum l) (lex r))
      else if starts_with (c # cs) ''true'' then cons_token TTrue (lex (drop 3 cs))
      else if starts_with (c # cs) ''false'' then cons_token TFalse (lex (drop 4 cs))
      else if starts_with (c # cs) ''null'' then cons_token TNull (lex (drop 3 cs))
      else None)"
  by pat_completeness auto

lemma lex_string_shorter: "lex_string cs = Some (s, r) \<Longrightarrow> length r < length cs"
proof (induction cs arbitrary: s r rule: lex_string.induct)
  case 1
  then show ?case by simp
next
  case (2 c cs)
  show ?case
  proof (cases "c = DQ")
    case True
    with "2.prems" show ?thesis by simp
  next
    case nq: False
    show ?thesis
    proof (cases "c = BSL")
      case True
      then obtain e t where cs: "cs = e # t"
        using "2.prems" nq by (cases cs) auto
      show ?thesis
      proof (cases "e = CHR ''u''")
        case u: True
        then obtain p r' where ue: "unicode_escape t = Some (p, r')"
          using "2.prems" nq True cs by (auto split: option.splits)
        then obtain s' where "lex_string r' = Some (s', r)"
          using "2.prems" nq True cs u
          by (auto simp: prepend_def split: option.splits)
        then have "length r < length r'"
          using "2.IH"(1) [OF nq True cs u ue] by simp
        moreover have "length r' < length t"
          using ue by (rule unicode_escape_shorter)
        ultimately show ?thesis using cs by simp
      next
        case nu: False
        then obtain x where se: "simple_escape e = Some x"
          using "2.prems" nq True cs by (auto split: option.splits)
        then obtain s' where "lex_string t = Some (s', r)"
          using "2.prems" nq True cs nu
          by (auto simp: prepend_def split: option.splits)
        then have "length r < length t"
          using "2.IH"(2) [OF nq True cs nu se] by simp
        then show ?thesis using cs by simp
      qed
    next
      case nb: False
      then have ctl: "\<not> (of_char c :: nat) < 32"
        using "2.prems" nq by (auto split: if_splits)
      then obtain s' where "lex_string cs = Some (s', r)"
        using "2.prems" nq nb
        by (auto simp: prepend_def split: option.splits)
      then have "length r < length cs"
        using "2.IH"(3) [OF nq nb ctl] by simp
      then show ?thesis by simp
    qed
  qed
qed

termination lex
proof (relation "measure length", goal_cases)
  case (9 c cs x2 s r)
  then have "lex_string cs = Some (s, r)" by simp
  then show ?case by (auto dest: lex_string_shorter)
next
  case (10 c cs x2 l r)
  then have "lex_number (c # cs) = Some (l, r)" by simp
  then have "length r < length (c # cs)" by (rule lex_number_shorter)
  then show ?case by simp
qed simp_all

subsection \<open>JSON.parse: the grammar\<close>

text \<open>
  The grammar is read by a pushdown automaton over the tokens, one step per token, so
  that parsing is total by construction. A container is an enclosing array or object
  that still waits for its closing bracket; element and member lists are kept reversed.
\<close>

datatype container =
    InArr "json list"
  | InObj "(string \<times> json) list" string

datatype pstate =
    PValue "container list"
  | PArrFirst "container list"
  | PArrNext "json list" "container list"
  | PObjFirst "container list"
  | PObjKey "(string \<times> json) list" "container list"
  | PObjColon "(string \<times> json) list" string "container list"
  | PObjNext "(string \<times> json) list" "container list"
  | PDone json

fun push_value :: "json \<Rightarrow> container list \<Rightarrow> pstate" where
  "push_value v [] = PDone v"
| "push_value v (InArr xs # st) = PArrNext (v # xs) st"
| "push_value v (InObj ms k # st) = PObjNext ((k, v) # ms) st"

fun value_token :: "container list \<Rightarrow> token \<Rightarrow> pstate option" where
  "value_token st (TStr s) = Some (push_value (JStr s) st)"
| "value_token st (TNum l) = Some (push_value (JNum l) st)"
| "value_token st TTrue = Some (push_value (JBool True) st)"
| "value_token st TFalse = Some (push_value (JBool False) st)"
| "value_token st TNull = Some (push_value JNull st)"
| "value_token st TLBrack = Some (PArrFirst st)"
| "value_token st TLBrace = Some (PObjFirst st)"
| "value_token st _ = None"

fun pstep :: "pstate \<Rightarrow> token \<Rightarrow> pstate option" where
  "pstep (PValue st) t = value_token st t"
| "pstep (PArrFirst st) t =
     (if t = TRBrack then Some (push_value (JArr []) st) else value_token (InArr [] # st) t)"
| "pstep (PArrNext xs st) t =
     (if t = TComma then Some (PValue (InArr xs # st))
      else if t = TRBrack then Some (push_value (JArr (rev xs)) st)
      else None)"
| "pstep (PObjFirst st) t =
     (case t of
        TRBrace \<Rightarrow> Some (push_value (JObj []) st)
      | TStr k \<Rightarrow> Some (PObjColon [] k st)
      | _ \<Rightarrow> None)"
| "pstep (PObjKey ms st) t =
     (case t of TStr k \<Rightarrow> Some (PObjColon ms k st) | _ \<Rightarrow> None)"
| "pstep (PObjColon ms k st) t =
     (if t = TColon then Some (PValue (InObj ms k # st)) else None)"
| "pstep (PObjNext ms st) t =
     (if t = TComma then Some (PObjKey ms st)
      else if t = TRBrace then Some (push_value (JObj (rev ms)) st)
      else None)"
| "pstep (PDone v) t = None"

fun prun :: "pstate \<Rightarrow> token list \<Rightarrow> pstate option" where
  "prun s [] = Some s"
| "prun s (t # ts) = (case pstep s t of None \<Rightarrow> None | Some s' \<Rightarrow> prun s' ts)"

text \<open>\<^verbatim>\<open>JSON.parse\<close>: \<open>None\<close> is the SyntaxError it throws.\<close>

definition JSON_parse :: "string \<Rightarrow> json option" where
  "JSON_parse s =
     (case lex s of
        None \<Rightarrow> None
      | Some ts \<Rightarrow> (case prun (PValue []) ts of Some (PDone v) \<Rightarrow> Some v | _ \<Rightarrow> None))"

subsection \<open>Property reads and truthiness\<close>

text \<open>
  \<^verbatim>\<open>data.k\<close> for one of the names \<^verbatim>\<open>done\<close>, \<^verbatim>\<open>error\<close>, \<^verbatim>\<open>content\<close>: reading a
  property of \<^verbatim>\<open>null\<close> throws a TypeError (\<open>Inl\<close>); an object yields its own member,
  the last one of that name, or \<^verbatim>\<open>undefined\<close> (\<open>None\<close>); arrays, strings, numbers and
  booleans have no property of these names.
\<close>

fun get_prop :: "json \<Rightarrow> string \<Rightarrow> unit + json option" where
  "get_prop JNull k = Inl ()"
| "get_prop (JObj ms) k = Inr (map_of (rev ms) k)"
| "get_prop _ k = Inr None"

text \<open>
  The mantissa digits and the decimal exponent of a number literal: the literal denotes
  \<open>m * 10 ^ e\<close> up to sign.
\<close>

definition digits_value :: "string \<Rightarrow> nat" where
  "digits_value ds = foldl (\<lambda>n c. 10 * n + (of_char c - 48)) 0 ds"

definition num_parts :: "string \<Rightarrow> nat \<times> int" where
  "num_parts l =
     (let body = (case l of c # r \<Rightarrow> if c = CHR ''-'' then r else l | [] \<Rightarrow> l);
          ip = takeWhile is_digit body;
          r1 = dropWhile is_digit body;
          fp = (case r1 of c # r \<Rightarrow> if c = CHR ''.'' then takeWhile is_digit r else [] | [] \<Rightarrow> []);
          r2 = (case r1 of c # r \<Rightarrow> if c = CHR ''.'' then dropWhile is_digit r else r1 | [] \<Rightarrow> r1);
          ex = (case r2 of
                  [] \<Rightarrow> 0
                | c # r \<Rightarrow>
                    (case lex_sign r of
                       (sg, ds) \<Rightarrow>
                         if sg = ''-'' then - int (digits_value ds) else int (digits_value ds)))
      in (digits_value (ip @ fp), ex - int (length fp)))"

text \<open>
  Whether the literal denotes the Number zero: its mantissa is zero, or its magnitude is
  at most \<open>2 ^ -1075\<close>, half the least positive double, which rounds to zero.
\<close>

definition num_is_zero :: "string \<Rightarrow> bool" where
  "num_is_zero l =
     (case num_parts l of
        (m, e) \<Rightarrow> m = 0 \<or> (e < 0 \<and> m * 2 ^ 1075 \<le> 10 ^ nat (- e)))"

text \<open>ToBoolean, on a property read.\<close>

fun truthy :: "json option \<Rightarrow> bool" where
  "truthy None = False"
| "truthy (Some JNull) = False"
| "truthy (Some (JBool b)) = b"
| "truthy (Some (JNum l)) = (\<not> num_is_zero l)"
| "truthy (Some (JStr s)) = (s \<noteq> [])"
| "truthy (Some (JArr xs)) = True"
| "truthy (Some (JObj ms)) = True"

section \<open>The simulated stock data (server/stockData.ts)\<close>

text \<open>
  What the program takes from its runtime and the model leaves open: the clock
  (\<^verbatim>\<open>Date.now()\<close>, read once per request in the model), \<^verbatim>\<open>String.prototype.toUpperCase\<close>
  (the Unicode case mapping), and the two conversions of a Number to text, the one of a
  template literal and \<^verbatim>\<open>toFixed(1)\<close>. IEEE doubles are modelled by \<^typ>\<open>real\<close>; nothing
  proved below depends on a numeric value.
\<close>

record runtime =
  now :: real
  toUpperCase :: "string \<Rightarrow> string"
  numToString :: "real \<Rightarrow> string"
  toFixed1 :: "real \<Rightarrow> string"

record stock =
  name :: string
  sector :: string
  basePrice :: real

text \<open>
  The table \<^verbatim>\<open>STOCKS\<close>, in the order of the object literal. The program reads
  \<^verbatim>\<open>STOCKS[k]\<close> only with an upper-cased \<open>k\<close>; the properties an object literal
  inherits all have a lower-case letter in their name, so such a read finds the table's
  own keys only, and is modelled by \<open>map_of\<close>.
\<close>

definition STOCKS :: "(string \<times> stock) list" where
  "STOCKS =
    [(''AAPL'', \<lparr>name = ''Apple Inc.'', sector = ''Technology'', basePrice = 198.50\<rparr>),
     (''MSFT'', \<lparr>name = ''Microsoft Corp.'', sector = ''Technology'', basePrice = 428.80\<rparr>),
     (''GOOGL'', \<lparr>name = ''Alphabet Inc.'', sector = ''Technology'', basePrice = 175.20\<rparr>),
     (''AMZN'', \<lparr>name = ''Amazon.com Inc.'', sector = ''Consumer Cyclical'', basePrice = 197.30\<rparr>),
     (''NVDA'', \<lparr>name = ''NVIDIA Corp.'', sector = ''Technology'', basePrice = 135.40\<rparr>),
     (''TSLA'', \<lparr>name = ''Tesla Inc.'', sector = ''Consumer Cyclical'', basePrice = 248.90\<rparr>),
     (''META'', \<lparr>name = ''Meta Platforms Inc.'', sector = ''Technology'', basePrice = 520.10\<rparr>),
     (''JPM'', \<lparr>name = ''JPMorgan Chase & Co.'', sector = ''Financial Services'', basePrice = 205.60\<rparr>),
     (''V'', \<lparr>name = ''Visa Inc.'', sector = ''Financial Services'', basePrice = 285.40\<rparr>),
     (''JNJ'', \<lparr>name = ''Johnson & Johnson'', sector = ''Healthcare'', basePrice = 156.80\<rparr>),
     (''WMT'', \<lparr>name = ''Walmart Inc.'', sector = ''Consumer Defensive'', basePrice = 172.30\<rparr>),
     (''PG'', \<lparr>name = ''Procter & Gamble Co.'', sector = ''Consumer Defensive'', basePrice = 168.90\<rparr>),
     (''UNH'', \<lparr>name = ''UnitedHealth Group Inc.'', sector = ''Healthcare'', basePrice = 532.40\<rparr>),
     (''HD'', \<lparr>name = ''Home Depot Inc.'', sector = ''Consumer Cyclical'', basePrice = 370.20\<rparr>),
     (''BAC'', \<lparr>name = ''Bank of America Corp.'', sector = ''Financial Services'', basePrice = 39.80\<rparr>),
     (''DIS'', \<lparr>name = ''Walt Disney Co.'', sector = ''Communication Services'', basePrice = 112.50\<rparr>),
     (''NFLX'', \<lparr>name = ''Netflix Inc.'', sector = ''Communication Services'', basePrice = 685.30\<rparr>),
     (''AMD'', \<lparr>name = ''Advanced Micro Devices'', sector = ''Technology'', basePrice = 162.70\<rparr>),
     (''CRM'', \<lparr>name = ''Salesforce Inc.'', sector = ''Technology'', basePrice = 268.40\<rparr>),
     (''INTC'', \<lparr>name = ''Intel Corp.'', sector = ''Technology'', basePrice = 31.20\<rparr>),
     (''PYPL'', \<lparr>name = ''PayPal Holdings Inc.'', sector = ''Financial Services'', basePrice = 72.80\<rparr>),
     (''UBER'', \<lparr>name = ''Uber Technologies Inc.'', sector = ''Technology'', basePrice = 78.50\<rparr>),
     (''SQ'', \<lparr>name = ''Block Inc.'', sector = ''Technology'', basePrice = 85.60\<rparr>),
     (''SNAP'', \<lparr>name = ''Snap Inc.'', sector = ''Communication Services'', basePrice = 16.40\<rparr>),
     (''COIN'', \<lparr>name = ''Coinbase Global Inc.'', sector = ''Financial Services'', basePrice = 258.90\<rparr>)]"

definition Math_round :: "real \<Rightarrow> real" where
  "Math_round x = of_int \<lfloor>x + 1 / 2\<rfloor>"

definition getVariation :: "real \<Rightarrow> real" where
  "getVariation seed = (let x = sin seed * 10000 in x - of_int \<lfloor>x\<rfloor>)"

text \<open>
  \<^verbatim>\<open>charCodeAt(0)\<close>. On the empty string JavaScript gives NaN; the program calls it only
  on a key of \<open>STOCKS\<close>, none of which is empty.
\<close>

definition charCodeAt0 :: "string \<Rightarrow> real" where
  "charCodeAt0 s = (case s of [] \<Rightarrow> 0 | c # _ \<Rightarrow> of_nat (of_char c))"

definition getStockPrice :: "runtime \<Rightarrow> string \<Rightarrow> real" where
  "getStockPrice rt symb =
     (case map_of STOCKS symb of
        None \<Rightarrow> 0
      | Some st \<Rightarrow>
          let variation = getVariation (now rt / 60000 + charCodeAt0 symb);
              pctChange = (variation - 0.5) * 0.06
          in Math_round ((basePrice st * (1 + pctChange)) * 100) / 100)"

text \<open>The field \<^verbatim>\<open>open\<close> of the source is \<open>openPrice\<close> here (\<open>open\<close> is reserved).\<close>

record StockQuote =
  symbol :: string
  name :: string
  sector :: string
  price :: real
  change :: real
  changePercent :: real
  previousClose :: real
  openPrice :: real
  dayHigh :: real
  dayLow :: real
  volume :: real
  marketCap :: real
  pe :: real
  eps :: real
  dividendYield :: real
  week52High :: real
  week52Low :: real

text \<open>\<open>None\<close> is the \<^verbatim>\<open>null\<close> of an unknown symbol.\<close>

definition getStockQuote :: "runtime \<Rightarrow> string \<Rightarrow> StockQuote option" where
  "getStockQuote rt symb =
     (case map_of STOCKS (toUpperCase rt symb) of
        None \<Rightarrow> None
      | Some st \<Rightarrow>
          let usym = toUpperCase rt symb;
              pr = getStockPrice rt usym;
              prevClose = basePrice st;
              chg = Math_round ((pr - prevClose) * 100) / 100;
              chgPercent = Math_round ((chg / prevClose) * 10000) / 100;
              dayVar = getVariation (now rt / 3600000 + charCodeAt0 usym);
              vol = Math_round ((5 + dayVar * 45) * 1000000);
              mcap = Math_round (pr * (vol * 100 + 1000000000))
          in Some \<lparr>
               symbol = usym,
               name = stock.name st,
               sector = stock.sector st,
               price = pr,
               change = chg,
               changePercent = chgPercent,
               previousClose = prevClose,
               openPrice = Math_round ((prevClose + (pr - prevClose) * 0.3) * 100) / 100,
               dayHigh = Math_round ((max pr prevClose * 1.012) * 100) / 100,
               dayLow = Math_round ((min pr prevClose * 0.988) * 100) / 100,
               volume = vol,
               marketCap = mcap,
               pe = Math_round ((15 + dayVar * 30) * 100) / 100,
               eps = Math_round ((pr / (15 + dayVar * 30)) * 100) / 100,
               dividendYield = Math_round ((dayVar * 3) * 100) / 100,
               week52High = Math_round ((pr * 1.25) * 100) / 100,
               week52Low = Math_round ((pr * 0.72) * 100) / 100\<rparr>)"

text \<open>
  The fields \<^verbatim>\<open>name\<close>, \<^verbatim>\<open>value\<close>, \<^verbatim>\<open>change\<close> and \<^verbatim>\<open>changePercent\<close> of an index
  carry the prefix \<open>idx_\<close> (three of the names are fields of a quote already).
\<close>

record MarketIndex =
  idx_name :: string
  idx_value :: real
  idx_change :: real
  idx_changePercent :: real

definition getMarketIndices :: "runtime \<Rightarrow> MarketIndex list" where
  "getMarketIndices rt =
     (let t = now rt / 60000 in
      [\<lparr>idx_name = ''S&P 500'',
        idx_value = Math_round ((5420 + (getVariation t - 0.5) * 80) * 100) / 100,
        idx_change = Math_round (((getVariation (t + 1) - 0.5) * 40) * 100) / 100,
        idx_changePercent = Math_round (((getVariation (t + 1) - 0.5) * 0.8) * 100) / 100\<rparr>,
       \<lparr>idx_name = ''NASDAQ'',
        idx_value = Math_round ((17180 + (getVariation (t + 2) - 0.5) * 200) * 100) / 100,
        idx_change = Math_round (((getVariation (t + 3) - 0.5) * 120) * 100) / 100,
        idx_changePercent = Math_round (((getVariation (t + 3) - 0.5) * 0.9) * 100) / 100\<rparr>,
       \<lparr>idx_name = ''DOW'',
        idx_value = Math_round ((39850 + (getVariation (t + 4) - 0.5) * 300) * 100) / 100,
        idx_change = Math_round (((getVariation (t + 5) - 0.5) * 200) * 100) / 100,
        idx_changePercent = Math_round (((getVariation (t + 5) - 0.5) * 0.6) * 100) / 100\<rparr>])"

text \<open>\<^verbatim>\<open>Object.keys(STOCKS)\<close>.\<close>

definition getAllSymbols :: "string list" where
  "getAllSymbols = map fst STOCKS"

section \<open>The chat gateway (POST /api/chat)\<close>

record ChatMessage =
  role :: string
  content :: string

record ChatRequest =
  message :: string
  history :: "ChatMessage list"

text \<open>\<^verbatim>\<open>haystack.includes(needle)\<close>.\<close>

fun str_includes :: "string \<Rightarrow> string \<Rightarrow> bool" where
  "str_includes [] needle = (needle = [])"
| "str_includes (c # cs) needle = (starts_with (c # cs) needle \<or> str_includes cs needle)"

definition signed :: "real \<Rightarrow> string" where
  "signed x = (if x \<ge> 0 then ''+'' else [])"

definition quoteSummary :: "runtime \<Rightarrow> StockQuote \<Rightarrow> string" where
  "quoteSummary rt q =
     symbol q @ '': $'' @ numToString rt (price q)
     @ '' ('' @ signed (change q) @ numToString rt (changePercent q) @ ''%), Volume: ''
     @ toFixed1 rt (volume q / 1000000) @ ''M, P/E: '' @ numToString rt (pe q)
     @ '', Market Cap: $'' @ toFixed1 rt (marketCap q / 1000000000) @ ''B''"

definition mentionedStocks :: "runtime \<Rightarrow> string \<Rightarrow> string list" where
  "mentionedStocks rt msg = filter (\<lambda>s. str_includes (toUpperCase rt msg) s) getAllSymbols"

text \<open>The lines that \<^verbatim>\<open>.map(...).filter(Boolean)\<close> leaves, before \<^verbatim>\<open>join('\n')\<close>.\<close>

definition quoteLines :: "runtime \<Rightarrow> string \<Rightarrow> string list" where
  "quoteLines rt msg =
     filter (\<lambda>l. l \<noteq> [])
       (map (\<lambda>s. case getStockQuote rt s of Some q \<Rightarrow> quoteSummary rt q | None \<Rightarrow> [])
            (mentionedStocks rt msg))"

definition stockContext :: "runtime \<Rightarrow> string \<Rightarrow> string" where
  "stockContext rt msg =
     (if mentionedStocks rt msg \<noteq> []
      then [NL, NL] @ ''Current market data:'' @ [NL] @ join [NL] (quoteLines rt msg)
      else [])"

definition indexSummary :: "runtime \<Rightarrow> MarketIndex \<Rightarrow> string" where
  "indexSummary rt i =
     idx_name i @ '': '' @ numToString rt (idx_value i)
     @ '' ('' @ signed (idx_change i) @ numToString rt (idx_changePercent i) @ ''%)''"

definition indexContext :: "runtime \<Rightarrow> string" where
  "indexContext rt = join '', '' (map (indexSummary rt) (getMarketIndices rt))"

text \<open>
  The part of the system message that carries the market data: the index line, and the
  quote lines when a symbol is mentioned.
\<close>

definition contextBlock :: "runtime \<Rightarrow> string \<Rightarrow> string" where
  "contextBlock rt msg = ''Current market indices: '' @ indexContext rt @ stockContext rt msg"

definition systemPersona :: string where
  \<open>systemPersona = ''You are StockAI, an expert financial analyst and stock market advisor. You provide insightful analysis of stocks, market trends, and investment strategies.''\<close>

definition systemRules :: string where
  \<open>systemRules =
     join [NL]
       [''When analyzing stocks, provide:'',
        ''1. A brief summary of the stock's current position'',
        ''2. A clear BUY, HOLD, or SELL recommendation'',
        ''3. A confidence percentage (e.g., 75%)'',
        ''4. Risk level (Low, Medium, High)'',
        ''5. Simple explanation of your reasoning'',
        ''6. Always include a disclaimer that this is AI-generated analysis, not financial advice'',
        [],
        ''Keep responses concise and well-structured. Use bullet points for clarity. Be specific with data points.'']\<close>

definition systemContent :: "runtime \<Rightarrow> string \<Rightarrow> string" where
  "systemContent rt msg = systemPersona @ [NL, NL] @ contextBlock rt msg @ [NL, NL] @ systemRules"

definition chatMessages :: "runtime \<Rightarrow> ChatRequest \<Rightarrow> ChatMessage list" where
  "chatMessages rt req =
     \<lparr>role = ''system'', content = systemContent rt (message req)\<rparr>
     # map (\<lambda>h. \<lparr>role = role h, content = content h\<rparr>) (history req)
     @ [\<lparr>role = ''user'', content = message req\<rparr>]"

subsection \<open>The provider\<close>

text \<open>
  A chunk of the provider's stream, as far as \<^verbatim>\<open>chunk.choices[0]?.delta?.content\<close> reads
  it. The call \<^verbatim>\<open>openai.chat.completions.create\<close> either rejects or gives a stream, which
  yields its chunks and then completes or raises. (A chunk without \<^verbatim>\<open>choices\<close> makes
  the loop body throw: that is a stream that raises in place of that chunk.)
\<close>

datatype delta = Delta (delta_content: "string option")
datatype choice = Choice (choice_delta: "delta option")
datatype chunk = Chunk (choices: "choice list")

datatype stream_end = Completes | Raises
datatype completion = Rejected | Stream "chunk list" stream_end

type_synonym provider = "ChatMessage list \<Rightarrow> completion"

text \<open>\<^verbatim>\<open>chunk.choices[0]?.delta?.content || ""\<close>\<close>

definition fragment :: "chunk \<Rightarrow> string" where
  "fragment ch =
     (case choices ch of
        [] \<Rightarrow> []
      | c # _ \<Rightarrow>
          (case choice_delta c of
             None \<Rightarrow> []
           | Some d \<Rightarrow> (case delta_content d of None \<Rightarrow> [] | Some s \<Rightarrow> s)))"

subsection \<open>The response\<close>

text \<open>
  The state of the Express response: headers go out with the first \<^verbatim>\<open>write\<close>,
  \<^verbatim>\<open>end\<close> or \<^verbatim>\<open>json\<close>, not with \<^verbatim>\<open>setHeader\<close>.
\<close>

record response =
  statusCode :: nat
  headersSent :: bool
  written :: "string list"
  jsonBody :: "json option"
  ended :: bool

definition fresh_response :: response where
  "fresh_response =
     \<lparr>statusCode = 200, headersSent = False, written = [], jsonBody = None, ended = False\<rparr>"

definition res_write :: "string \<Rightarrow> response \<Rightarrow> response" where
  "res_write s res = res\<lparr>headersSent := True, written := written res @ [s]\<rparr>"

definition res_end :: "response \<Rightarrow> response" where
  "res_end res = res\<lparr>headersSent := True, ended := True\<rparr>"

definition res_status_json :: "nat \<Rightarrow> json \<Rightarrow> response \<Rightarrow> response" where
  "res_status_json code body res =
     res\<lparr>statusCode := code, headersSent := True, jsonBody := Some body, ended := True\<rparr>"

text \<open>The frame \<^verbatim>\<open>`data: ${JSON.stringify(payload)}\n\n`\<close>.\<close>

definition sse_frame :: "json \<Rightarrow> string" where
  "sse_frame payload = ''data: '' @ JSON_stringify payload @ [NL, NL]"

text \<open>The body of \<^verbatim>\<open>for await (const chunk of stream)\<close>, over the chunks yielded.\<close>

fun forward :: "chunk list \<Rightarrow> response \<Rightarrow> response" where
  "forward [] res = res"
| "forward (ch # rest) res =
     (let c = fragment ch in
      forward rest (if c \<noteq> [] then res_write (sse_frame (JObj [(''content'', JStr c)])) res
                    else res))"

text \<open>The \<^verbatim>\<open>catch\<close> branch of the handler.\<close>

definition on_failure :: "response \<Rightarrow> response" where
  "on_failure res =
     (if headersSent res
      then res_end (res_write (sse_frame (JObj [(''error'', JStr ''AI service error'')])) res)
      else res_status_json 500 (JObj [(''error'', JStr ''Failed to process chat'')]) res)"

text \<open>
  The handler: what it sent upstream (\<open>None\<close> when it never called the provider) and
  the response it left. The message list is built before the provider is called; an
  exception of the call or of the loop over the stream lands in \<open>on_failure\<close>.
\<close>

record exchange =
  upstream :: "ChatMessage list option"
  reply :: response

definition handleChat :: "runtime \<Rightarrow> provider \<Rightarrow> ChatRequest \<Rightarrow> exchange" where
  "handleChat rt prov req =
     (if message req = [] then
        \<lparr>upstream = None,
         reply = res_status_json 400 (JObj [(''error'', JStr ''Message required'')]) fresh_response\<rparr>
      else
        let msgs = chatMessages rt req in
        \<lparr>upstream = Some msgs,
         reply =
           (case prov msgs of
              Rejected \<Rightarrow> on_failure fresh_response
            | Stream chunks e \<Rightarrow>
                let res = forward chunks fresh_response in
                (case e of
                   Completes \<Rightarrow> res_end (res_write (sse_frame (JObj [(''done'', JBool True)])) res)
                 | Raises \<Rightarrow> on_failure res))\<rparr>)"

section \<open>The stream client (lib/api.ts)\<close>

text \<open>
  The callbacks \<^verbatim>\<open>streamChat\<close> invokes, in order. Their argument is whatever value the
  frame carried. The callbacks are taken not to throw.
\<close>

datatype callback = OnChunk json | OnDone | OnError json

text \<open>\<^verbatim>\<open>s.split('\n')\<close>: never empty, the last element is what follows the last line feed.\<close>

fun split_nl :: "string \<Rightarrow> string list" where
  "split_nl [] = [[]]"
| "split_nl (c # cs) =
     (if c = NL then [] # split_nl cs
      else (case split_nl cs of [] \<Rightarrow> [[c]] | l # ls \<Rightarrow> (c # l) # ls))"

text \<open>\<^verbatim>\<open>lines.pop() || ''\<close> and the array it leaves.\<close>

definition pop_or_empty :: "string list \<Rightarrow> string \<times> string list" where
  "pop_or_empty ls = (if ls = [] then ([], []) else (last ls, butlast ls))"

text \<open>
  What one line does: nothing, a callback, or a callback and \<^verbatim>\<open>return\<close>.
\<close>

datatype action = Skip | Emit callback | Finish callback

text \<open>\<^verbatim>\<open>if (x) ... else ...\<close> on a property read \<open>x\<close>.\<close>

definition if_truthy :: "json option \<Rightarrow> (json \<Rightarrow> 'a) \<Rightarrow> 'a \<Rightarrow> 'a" where
  "if_truthy x f g = (case x of Some v \<Rightarrow> if truthy x then f v else g | None \<Rightarrow> g)"

text \<open>
  The three tests on the parsed frame. A TypeError of a property read lands in the empty
  \<^verbatim>\<open>catch {}\<close>, like the SyntaxError of \<^verbatim>\<open>JSON.parse\<close>.
\<close>

definition dispatch :: "json \<Rightarrow> action" where
  "dispatch data =
     (case get_prop data ''done'' of
        Inl _ \<Rightarrow> Skip
      | Inr d \<Rightarrow>
          if_truthy d (\<lambda>_. Finish OnDone)
            (case get_prop data ''error'' of
               Inl _ \<Rightarrow> Skip
             | Inr e \<Rightarrow>
                 if_truthy e (\<lambda>v. Finish (OnError v))
                   (case get_prop data ''content'' of
                      Inl _ \<Rightarrow> Skip
                    | Inr c \<Rightarrow> if_truthy c (\<lambda>v. Emit (OnChunk v)) Skip)))"

definition process_line :: "string \<Rightarrow> action" where
  "process_line line =
     (if \<not> starts_with line ''data: '' then Skip
      else (case JSON_parse (drop 6 line) of None \<Rightarrow> Skip | Some data \<Rightarrow> dispatch data))"

text \<open>
  \<^verbatim>\<open>for (const line of lines)\<close>: the callbacks made, and whether the function returned.
\<close>

fun process_lines :: "string list \<Rightarrow> callback list \<times> bool" where
  "process_lines [] = ([], False)"
| "process_lines (l # ls) =
     (case process_line l of
        Skip \<Rightarrow> process_lines ls
      | Emit cb \<Rightarrow> (case process_lines ls of (cbs, r) \<Rightarrow> (cb # cbs, r))
      | Finish cb \<Rightarrow> ([cb], True))"

text \<open>
  The reader: the chunks it delivers, then \<^verbatim>\<open>done\<close> or a rejected \<^verbatim>\<open>read()\<close> with the
  message of its error.
\<close>

datatype read_end = Closed | ReadFails string

definition or_default :: "string \<Rightarrow> string \<Rightarrow> string" where
  "or_default s d = (if s = [] then d else s)"

fun read_loop :: "string \<Rightarrow> string list \<Rightarrow> read_end \<Rightarrow> callback list" where
  "read_loop buffer [] e =
     (case e of
        Closed \<Rightarrow> [OnDone]
      | ReadFails m \<Rightarrow> [OnError (JStr (or_default m ''Network error''))])"
| "read_loop buffer (v # rest) e =
     (case pop_or_empty (split_nl (buffer @ v)) of
        (buffer', lines) \<Rightarrow>
          (case process_lines lines of
             (cbs, returned) \<Rightarrow> if returned then cbs else cbs @ read_loop buffer' rest e))"

text \<open>
  What \<^verbatim>\<open>fetch\<close> gives: a rejection with its message, or a response with its \<^verbatim>\<open>ok\<close>
  flag and, when it has a body, the reader's behaviour.
\<close>

datatype fetched = FetchFails string | Fetched bool "(string list \<times> read_end) option"

fun streamChat :: "fetched \<Rightarrow> callback list" where
  "streamChat (FetchFails m) = [OnError (JStr (or_default m ''Network error''))]"
| "streamChat (Fetched ok body) =
     (if \<not> ok then [OnError (JStr ''Failed to connect to AI'')]
      else (case body of
              None \<Rightarrow> [OnError (JStr ''No response body'')]
            | Some (chunks, e) \<Rightarrow> read_loop [] chunks e))"

section \<open>The wire protocol, as the specification names it\<close>

text \<open>
  The three events of a chat stream and the payload each one is serialised from; a
  terminal event is \<open>EvDone\<close> or \<open>EvError\<close>.
\<close>

datatype StreamEvent = EvContent string | EvDone | EvError string

fun event_payload :: "StreamEvent \<Rightarrow> json" where
  "event_payload (EvContent c) = JObj [(''content'', JStr c)]"
| "event_payload EvDone = JObj [(''done'', JBool True)]"
| "event_payload (EvError m) = JObj [(''error'', JStr m)]"

definition event_frame :: "StreamEvent \<Rightarrow> string" where
  "event_frame ev = sse_frame (event_payload ev)"

text \<open>The line of a frame, without the two line feeds that end it.\<close>

definition frame_line :: "StreamEvent \<Rightarrow> string" where
  "frame_line ev = ''data: '' @ JSON_stringify (event_payload ev)"

fun is_terminal :: "StreamEvent \<Rightarrow> bool" where
  "is_terminal (EvContent c) = False"
| "is_terminal EvDone = True"
| "is_terminal (EvError m) = True"

fun no_content_after_terminal :: "StreamEvent list \<Rightarrow> bool" where
  "no_content_after_terminal [] = True"
| "no_content_after_terminal (ev # evs) =
     ((is_terminal ev \<longrightarrow> list_all is_terminal evs) \<and> no_content_after_terminal evs)"

text \<open>The text fragments of the provider's chunks that are not empty, in order.\<close>

definition fragments :: "chunk list \<Rightarrow> string list" where
  "fragments chunks = filter (\<lambda>c. c \<noteq> []) (map fragment chunks)"

text \<open>
  What the client's \<^verbatim>\<open>fetch\<close> sees of a response that went out to its end: \<^verbatim>\<open>ok\<close> is
  a status from 200 to 299, and the reader delivers the body in the given parts and then
  reports \<^verbatim>\<open>done\<close>. The parts are any cutting of the bytes written.
\<close>

definition res_ok :: "response \<Rightarrow> bool" where
  "res_ok res \<longleftrightarrow> 200 \<le> statusCode res \<and> statusCode res \<le> 299"

definition delivered :: "response \<Rightarrow> string list \<Rightarrow> fetched" where
  "delivered res parts = Fetched (res_ok res) (Some (parts, Closed))"

text \<open>The complete lines of a stream: all that \<^verbatim>\<open>split\<close> gives but the unfinished last one.\<close>

definition complete_lines :: "string \<Rightarrow> string list" where
  "complete_lines s = butlast (split_nl s)"

fun is_finish :: "action \<Rightarrow> bool" where
  "is_finish (Finish cb) = True"
| "is_finish _ = False"

text \<open>A message of white space only (\<^verbatim>\<open>message.trim() === ''\<close> and \<^verbatim>\<open>message !== ''\<close>).\<close>

definition whitespace_only :: "string \<Rightarrow> bool" where
  "whitespace_only s \<longleftrightarrow> s \<noteq> [] \<and> list_all is_ws s"

text \<open>
  A runtime for the worked examples: the clock at a given time, upper-casing of the
  ASCII letters, and number conversions that print a fixed text (no example reads a
  number).
\<close>

definition ascii_upper :: "char \<Rightarrow> char" where
  "ascii_upper c =
     (case map_of (zip ''abcdefghijklmnopqrstuvwxyz'' ''ABCDEFGHIJKLMNOPQRSTUVWXYZ'') c of
        None \<Rightarrow> c
      | Some u \<Rightarrow> u)"

definition example_runtime :: runtime where
  "example_runtime =
     \<lparr>now = 0, toUpperCase = map ascii_upper,
      numToString = (\<lambda>x. ''0''), toFixed1 = (\<lambda>x. ''0.0'')\<rparr>"

definition text_chunk :: "string \<Rightarrow> chunk" where
  "text_chunk s = Chunk [Choice (Some (Delta (Some s)))]"

text \<open>A provider stub: it answers every request with the same behaviour.\<close>

definition stub_provider :: "completion \<Rightarrow> provider" where
  "stub_provider c = (\<lambda>ms. c)"

text \<open>
  The scenario of the specification: the request \<^verbatim>\<open>{message: "Analyze AAPL", history: []}\<close>
  and a provider that yields \<^verbatim>\<open>"Apple"\<close>, \<^verbatim>\<open>" is"\<close>, \<^verbatim>\<open>" strong."\<close>; one cutting of the
  resulting body into four reads, none at a frame boundary.
\<close>

definition scenario_request :: ChatRequest where
  "scenario_request = \<lparr>message = ''Analyze AAPL'', history = []\<rparr>"

definition scenario_chunks :: "chunk list" where
  "scenario_chunks = [text_chunk ''Apple'', text_chunk '' is'', text_chunk '' strong.'']"

definition scenario_parts :: "string list" where
  \<open>scenario_parts =
     [''data: {"content":"App'',
      ''le"}'' @ [NL, NL] @ ''data: {"content":" is"}'' @ [NL],
      [NL] @ ''data: {"content":" strong."}'' @ [NL, NL] @ ''data: {"do'',
      ''ne":true}'' @ [NL, NL]]\<close>

section \<open>The JSON runtime: what is serialised parses back\<close>

lemma hexval_hexdigit: "d < 16 \<Longrightarrow> hexval (hexdigit d) = Some d"
proof -
  assume "d < 16"
  then have "d \<in> {0, 1, 2, 3, 4, 5, 6, 7, 8, 9, 10, 11, 12, 13, 14, 15}"
    by simp arith
  then show ?thesis
    by (auto simp: hexdigit_def hexval_def)
qed

lemma hexdigit_not_NL: "hexdigit d \<noteq> NL"
proof -
  have "d mod 16 \<in> {0, 1, 2, 3, 4, 5, 6, 7, 8, 9, 10, 11, 12, 13, 14, 15}"
    by simp arith
  then show ?thesis
    unfolding hexdigit_def by (auto simp del: mod_less_divisor)
qed

lemma unicode_escape_control:
  assumes "n < 32"
  shows "unicode_escape (CHR ''0'' # CHR ''0'' # hexdigit (n div 16) # hexdigit (n mod 16) # t)
         = Some ([char_of n], t)"
proof -
  have a: "hexval (hexdigit (n div 16)) = Some (n div 16)"
    using assms by (intro hexval_hexdigit) simp
  have b: "hexval (hexdigit (n mod 16)) = Some (n mod 16)"
    by (intro hexval_hexdigit) simp
  have c: "hexval (CHR ''0'') = Some 0" by (simp add: hexval_def)
  have "hex4 (CHR ''0'' # CHR ''0'' # hexdigit (n div 16) # hexdigit (n mod 16) # t) = Some (n, t)"
    by (simp add: a b c)
  then show ?thesis
    using assms by (simp add: unicode_escape_def utf8_def)
qed

lemma lex_string_escape_char:
  "lex_string (escape_char c @ t) = prepend [c] (lex_string t)"
proof -
  consider (special) "c \<in> {CHR 0x08, CHR 0x09, NL, CHR 0x0C, CHR 0x0D, DQ, BSL}"
    | (control) "c \<notin> {CHR 0x08, CHR 0x09, NL, CHR 0x0C, CHR 0x0D, DQ, BSL}" "(of_char c :: nat) < 32"
    | (plain) "c \<notin> {CHR 0x08, CHR 0x09, NL, CHR 0x0C, CHR 0x0D, DQ, BSL}" "\<not> (of_char c :: nat) < 32"
    by blast
  then show ?thesis
  proof cases
    case special
    then show ?thesis
      by (auto simp: escape_char_def simple_escape_def)
  next
    case control
    have "char_of (of_char c :: nat) = c" by simp
    with control show ?thesis
      using unicode_escape_control [of "of_char c" t]
      by (simp add: escape_char_def)
  next
    case plain
    then show ?thesis
      by (simp add: escape_char_def)
  qed
qed

lemma lex_string_escaped:
  "lex_string (concat (map escape_char s) @ DQ # rest) = Some (s, rest)"
  by (induction s) (simp_all add: lex_string_escape_char prepend_def)

lemma lex_quote_string:
  "lex (quote_string s @ rest) = cons_token (TStr s) (lex rest)"
  by (simp add: quote_string_def is_ws_def lex_string_escaped)

lemma quote_string_inj: "quote_string a = quote_string b \<Longrightarrow> a = b"
proof -
  assume "quote_string a = quote_string b"
  then have "concat (map escape_char a) @ DQ # [] = concat (map escape_char b) @ DQ # []"
    by (simp add: quote_string_def)
  then have "lex_string (concat (map escape_char a) @ DQ # []) = lex_string (concat (map escape_char b) @ DQ # [])"
    by (rule arg_cong)
  then show "a = b" by (simp only: lex_string_escaped) simp
qed

lemma escape_char_no_NL: "NL \<notin> set (escape_char c)"
  by (simp add: escape_char_def hexdigit_not_NL [symmetric])

lemma quote_string_no_NL: "NL \<notin> set (quote_string s)"
  by (induction s) (simp_all add: quote_string_def escape_char_no_NL)

lemma lex_string_member:
  "lex (CHR ''{'' # quote_string k @ CHR '':'' # quote_string s @ ''}'')
   = Some [TLBrace, TStr k, TColon, TStr s, TRBrace]"
proof -
  have "lex (quote_string s @ ''}'') = Some [TStr s, TRBrace]"
    by (simp add: lex_quote_string is_ws_def cons_token_def)
  then have "lex (CHR '':'' # quote_string s @ ''}'') = Some [TColon, TStr s, TRBrace]"
    by (simp add: is_ws_def cons_token_def)
  then have "lex (quote_string k @ CHR '':'' # quote_string s @ ''}'')
             = Some [TStr k, TColon, TStr s, TRBrace]"
    by (simp add: lex_quote_string cons_token_def)
  then show ?thesis
    by (simp add: is_ws_def cons_token_def)
qed

lemma JSON_parse_string_member:
  "JSON_parse (JSON_stringify (JObj [(k, JStr s)])) = Some (JObj [(k, JStr s)])"
  using lex_string_member [of k s] by (simp add: JSON_parse_def)

lemma lex_true_member:
  "lex (CHR ''{'' # quote_string k @ '':true}'') = Some [TLBrace, TStr k, TColon, TTrue, TRBrace]"
proof -
  have "lex '':true}'' = Some [TColon, TTrue, TRBrace]"
    by (simp add: is_ws_def is_digit_def starts_with_def cons_token_def)
  then have "lex (quote_string k @ '':true}'') = Some [TStr k, TColon, TTrue, TRBrace]"
    by (simp add: lex_quote_string cons_token_def)
  then show ?thesis
    by (simp add: is_ws_def cons_token_def)
qed

lemma JSON_parse_true_member:
  "JSON_parse (JSON_stringify (JObj [(k, JBool True)])) = Some (JObj [(k, JBool True)])"
  using lex_true_member [of k] by (simp add: JSON_parse_def)

lemma process_line_data:
  "process_line (''data: '' @ payload) =
     (case JSON_parse payload of None \<Rightarrow> Skip | Some data \<Rightarrow> dispatch data)"
  by (simp add: process_line_def starts_with_def)

lemma process_line_content:
  "process_line (''data: '' @ JSON_stringify (JObj [(''content'', JStr c)]))
   = (if c = [] then Skip else Emit (OnChunk (JStr c)))"
  by (simp only: process_line_data JSON_parse_string_member)
     (simp add: dispatch_def if_truthy_def)

lemma process_line_done:
  "process_line (''data: '' @ JSON_stringify (JObj [(''done'', JBool True)])) = Finish OnDone"
  by (simp only: process_line_data JSON_parse_true_member)
     (simp add: dispatch_def if_truthy_def)

lemma process_line_error:
  "process_line (''data: '' @ JSON_stringify (JObj [(''error'', JStr m)]))
   = (if m = [] then Skip else Finish (OnError (JStr m)))"
  by (simp only: process_line_data JSON_parse_string_member)
     (simp add: dispatch_def if_truthy_def)

lemma process_line_empty: "process_line [] = Skip"
  by (simp add: process_line_def starts_with_def)

section \<open>The read loop and the lines of the stream\<close>

lemma split_nl_nonempty: "split_nl s \<noteq> []"
  by (induction s) (auto split: list.splits)

lemma split_nl_no_NL: "NL \<notin> set s \<Longrightarrow> split_nl (s @ t) = (s @ hd (split_nl t)) # tl (split_nl t)"
  using split_nl_nonempty [of t]
  by (induction s) (auto split: list.splits)

lemma split_nl_line: "NL \<notin> set s \<Longrightarrow> split_nl (s @ NL # t) = s # split_nl t"
  by (induction s) (auto split: list.splits)

lemma last_split_nl_no_NL: "NL \<notin> set (last (split_nl s))"
  using split_nl_nonempty
  by (induction s) (auto split: list.splits)

lemma split_nl_append:
  "split_nl (a @ b) = butlast (split_nl a) @ split_nl (last (split_nl a) @ b)"
proof (induction a)
  case Nil
  then show ?case by simp
next
  case (Cons c a)
  show ?case
  proof (cases "c = NL")
    case True
    then show ?thesis using Cons split_nl_nonempty [of a] by simp
  next
    case False
    obtain l ls where s: "split_nl a = l # ls"
      using split_nl_nonempty [of a] by (cases "split_nl a") auto
    show ?thesis
    proof (cases ls)
      case Nil
      then have "NL \<notin> set l" using last_split_nl_no_NL [of a] s by simp
      then show ?thesis
        using False s Nil Cons split_nl_nonempty [of b]
        by (auto simp: split_nl_no_NL split: list.splits)
    next
      case (Cons x xs)
      then show ?thesis
        using False s Cons.IH
        by (auto split: list.splits)
    qed
  qed
qed

lemma complete_lines_append:
  "butlast (split_nl (a @ b)) = butlast (split_nl a) @ butlast (split_nl (last (split_nl a) @ b))"
  by (subst split_nl_append) (simp add: butlast_append split_nl_nonempty)

lemma process_lines_append:
  "process_lines (xs @ ys) =
     (case process_lines xs of
        (c1, r1) \<Rightarrow>
          if r1 then (c1, True)
          else (case process_lines ys of (c2, r2) \<Rightarrow> (c1 @ c2, r2)))"
  by (induction xs) (auto split: action.splits prod.splits)

text \<open>The read loop sees the complete lines of the whole stream, however it is cut.\<close>

lemma read_loop_lines:
  "NL \<notin> set buffer \<Longrightarrow>
   read_loop buffer parts e =
     (case process_lines (butlast (split_nl (buffer @ concat parts))) of
        (cbs, returned) \<Rightarrow> if returned then cbs else cbs @ read_loop [] [] e)"
proof (induction parts arbitrary: buffer)
  case Nil
  then show ?case
    using split_nl_no_NL [of buffer "[]"] by simp
next
  case (Cons v rest)
  let ?b = "last (split_nl (buffer @ v))"
  have ih: "read_loop ?b rest e =
     (case process_lines (butlast (split_nl (?b @ concat rest))) of
        (cbs, returned) \<Rightarrow> if returned then cbs else cbs @ read_loop [] [] e)"
    by (rule Cons.IH) (rule last_split_nl_no_NL)
  have lines: "butlast (split_nl (buffer @ concat (v # rest)))
             = butlast (split_nl (buffer @ v)) @ butlast (split_nl (?b @ concat rest))"
    using complete_lines_append [of "buffer @ v" "concat rest"] by simp
  show ?case
    unfolding lines process_lines_append
    by (simp add: pop_or_empty_def split_nl_nonempty ih split: prod.splits)
qed

section \<open>The gateway and the frames it writes\<close>

subsection \<open>What the gateway writes\<close>

lemma forward_written:
  "written (forward chunks res) = written res @ map (\<lambda>c. event_frame (EvContent c)) (fragments chunks)"
  by (induction chunks arbitrary: res)
     (simp_all add: fragments_def event_frame_def res_write_def Let_def)

lemma forward_headersSent:
  "headersSent (forward chunks res) \<longleftrightarrow> headersSent res \<or> fragments chunks \<noteq> []"
  by (induction chunks arbitrary: res)
     (auto simp: fragments_def res_write_def Let_def)

lemma forward_rest:
  "statusCode (forward chunks res) = statusCode res \<and>
   jsonBody (forward chunks res) = jsonBody res \<and>
   ended (forward chunks res) = ended res"
  by (induction chunks arbitrary: res)
     (simp_all add: res_write_def Let_def)

lemma reply_completes:
  assumes "message req \<noteq> []" and "prov (chatMessages rt req) = Stream chunks Completes"
  shows "reply (handleChat rt prov req) =
           \<lparr>statusCode = 200, headersSent = True,
            written = map (\<lambda>c. event_frame (EvContent c)) (fragments chunks) @ [event_frame EvDone],
            jsonBody = None, ended = True\<rparr>"
  using assms
  by (simp add: handleChat_def Let_def res_end_def res_write_def forward_written forward_rest
                fresh_response_def event_frame_def)

lemma reply_raises:
  assumes "message req \<noteq> []" and "prov (chatMessages rt req) = Stream chunks Raises"
  shows "reply (handleChat rt prov req) =
           (if fragments chunks \<noteq> [] then
              \<lparr>statusCode = 200, headersSent = True,
               written = map (\<lambda>c. event_frame (EvContent c)) (fragments chunks)
                         @ [event_frame (EvError ''AI service error'')],
               jsonBody = None, ended = True\<rparr>
            else
              \<lparr>statusCode = 500, headersSent = True, written = [],
               jsonBody = Some (JObj [(''error'', JStr ''Failed to process chat'')]), ended = True\<rparr>)"
  using assms
  by (simp add: handleChat_def Let_def on_failure_def res_end_def res_write_def res_status_json_def
                forward_written forward_rest forward_headersSent fresh_response_def event_frame_def)

lemma reply_rejected:
  assumes "message req \<noteq> []" and "prov (chatMessages rt req) = Rejected"
  shows "reply (handleChat rt prov req) =
           \<lparr>statusCode = 500, headersSent = True, written = [],
            jsonBody = Some (JObj [(''error'', JStr ''Failed to process chat'')]), ended = True\<rparr>"
  using assms
  by (simp add: handleChat_def Let_def on_failure_def res_status_json_def fresh_response_def)

lemma reply_empty_message:
  assumes "message req = []"
  shows "reply (handleChat rt prov req) =
           \<lparr>statusCode = 400, headersSent = True, written = [],
            jsonBody = Some (JObj [(''error'', JStr ''Message required'')]), ended = True\<rparr>"
  using assms
  by (simp add: handleChat_def res_status_json_def fresh_response_def)

subsection \<open>The lines of a stream of frames\<close>

lemma event_frame_line: "event_frame ev = frame_line ev @ [NL, NL]"
  by (simp add: event_frame_def sse_frame_def frame_line_def)

lemma frame_line_no_NL: "NL \<notin> set (frame_line ev)"
  using quote_string_no_NL
  by (cases ev) (auto simp: frame_line_def quote_string_def escape_char_def)

lemma split_nl_frames:
  "split_nl (concat (map event_frame evs) @ t)
   = concat (map (\<lambda>ev. [frame_line ev, []]) evs) @ split_nl t"
proof (induction evs)
  case Nil
  then show ?case by simp
next
  case (Cons ev evs)
  let ?rest = "concat (map event_frame evs) @ t"
  have "concat (map event_frame (ev # evs)) @ t = frame_line ev @ NL # (NL # ?rest)"
    by (simp add: event_frame_line)
  moreover have "split_nl (frame_line ev @ NL # (NL # ?rest)) = frame_line ev # split_nl (NL # ?rest)"
    by (rule split_nl_line) (rule frame_line_no_NL)
  moreover have "split_nl (NL # ?rest) = [] # split_nl ?rest"
    by simp
  ultimately show ?case
    using Cons.IH by simp
qed

lemma process_line_frame:
  "process_line (frame_line ev) =
     (case ev of
        EvContent c \<Rightarrow> if c = [] then Skip else Emit (OnChunk (JStr c))
      | EvDone \<Rightarrow> Finish OnDone
      | EvError m \<Rightarrow> if m = [] then Skip else Finish (OnError (JStr m)))"
  unfolding frame_line_def
  by (cases ev)
     (simp_all only: event_payload.simps process_line_content process_line_done
                     process_line_error StreamEvent.case)

lemma process_lines_contents:
  "process_lines (concat (map (\<lambda>ev. [frame_line ev, []]) (map EvContent cs)) @ ls)
   = (case process_lines ls of
        (cbs, r) \<Rightarrow> (map (\<lambda>c. OnChunk (JStr c)) (filter (\<lambda>c. c \<noteq> []) cs) @ cbs, r))"
  by (induction cs)
     (auto simp: process_line_frame process_line_empty split: prod.splits)

lemma quote_string_keys:
  "quote_string ''content'' = DQ # ''content'' @ [DQ]"
  "quote_string ''done'' = DQ # ''done'' @ [DQ]"
  "quote_string ''error'' = DQ # ''error'' @ [DQ]"
  by (simp_all add: quote_string_def escape_char_def)

lemma event_frame_inj: "event_frame a = event_frame b \<Longrightarrow> a = b"
  by (cases a; cases b)
     (auto simp: event_frame_def sse_frame_def quote_string_keys dest: quote_string_inj)

lemma map_event_frame_inj: "map event_frame xs = map event_frame ys \<Longrightarrow> xs = ys"
  using event_frame_inj by (simp add: inj_on_def list.inj_map_strong)

lemma contents_then_terminal:
  assumes "is_terminal t"
  shows "length (filter is_terminal (map EvContent cs @ [t])) = 1"
    and "no_content_after_terminal (map EvContent cs @ [t])"
  using assms by (induction cs) simp_all

lemma read_loop_frames:
  assumes "concat parts = concat (map event_frame (map EvContent cs @ [ev])) @ t"
  shows "read_loop [] parts e =
           map (\<lambda>c. OnChunk (JStr c)) (filter (\<lambda>c. c \<noteq> []) cs)
           @ (case process_line (frame_line ev) of
                Finish cb \<Rightarrow> [cb]
              | Emit cb \<Rightarrow> cb # read_loop [] [t] e
              | Skip \<Rightarrow> read_loop [] [t] e)"
proof -
  have lines: "butlast (split_nl (concat parts))
        = concat (map (\<lambda>ev. [frame_line ev, []]) (map EvContent cs))
          @ (frame_line ev # [] # butlast (split_nl t))"
    unfolding assms split_nl_frames
    by (simp add: butlast_append split_nl_nonempty)
  have tail: "read_loop [] [t] e =
     (case process_lines (butlast (split_nl t)) of
        (cbs, returned) \<Rightarrow> if returned then cbs else cbs @ read_loop [] [] e)"
    using read_loop_lines [of "[]" "[t]" e] by simp
  have "read_loop [] parts e =
     (case process_lines (butlast (split_nl (concat parts))) of
        (cbs, returned) \<Rightarrow> if returned then cbs else cbs @ read_loop [] [] e)"
    using read_loop_lines [of "[]" parts e] by simp
  then show ?thesis
    unfolding lines process_lines_contents tail
    by (auto simp: process_line_empty split: action.splits prod.splits)
qed

section \<open>The client on arbitrary streams\<close>

lemma dispatch_Emit: "dispatch data = Emit cb \<Longrightarrow> \<exists>v. cb = OnChunk v"
  by (cases data)
     (auto simp: dispatch_def if_truthy_def split: option.splits if_splits)

lemma process_line_Emit: "process_line l = Emit cb \<Longrightarrow> \<exists>v. cb = OnChunk v"
  by (auto simp: process_line_def dest: dispatch_Emit split: if_splits option.splits)

lemma process_lines_no_finish:
  "list_all (\<lambda>l. \<not> is_finish (process_line l)) ls \<Longrightarrow>
   \<exists>vs. process_lines ls = (map OnChunk vs, False)"
proof (induction ls)
  case Nil
  then show ?case by simp
next
  case (Cons l ls)
  then obtain vs where vs: "process_lines ls = (map OnChunk vs, False)" by auto
  show ?case
  proof (cases "process_line l")
    case Skip
    then have "process_lines (l # ls) = (map OnChunk vs, False)"
      using vs by simp
    then show ?thesis by blast
  next
    case (Emit cb)
    then obtain v where "cb = OnChunk v" using process_line_Emit by blast
    then have "process_lines (l # ls) = (map OnChunk (v # vs), False)"
      using Emit vs by simp
    then show ?thesis by blast
  next
    case (Finish cb)
    then show ?thesis using Cons.prems by simp
  qed
qed

lemma process_lines_skip:
  "process_line l = Skip \<Longrightarrow> process_lines (xs @ l # ys) = process_lines (xs @ ys)"
  by (cases "process_lines xs") (simp add: process_lines_append)

lemma last_split_nl_line: "last (split_nl (s @ [NL])) = []"
  using split_nl_append [of s "[NL]"] split_nl_line [of "last (split_nl s)" "[]"]
        last_split_nl_no_NL [of s]
  by simp

lemma last_split_nl_boundary: "s = [] \<or> last s = NL \<Longrightarrow> last (split_nl s) = []"
  using last_split_nl_line [of "butlast s"] append_butlast_last_id [of s]
  by (cases "s = []") auto

lemma lex_done_error_members:
  "lex (CHR ''{'' # quote_string k @ '':true,'' @ quote_string k' @ CHR '':'' # quote_string s @ ''}'')
   = Some [TLBrace, TStr k, TColon, TTrue, TComma, TStr k', TColon, TStr s, TRBrace]"
proof -
  have "lex (quote_string k' @ CHR '':'' # quote_string s @ ''}'')
        = Some [TStr k', TColon, TStr s, TRBrace]"
    using lex_string_member [of k' s]
    by (simp add: is_ws_def cons_token_def split: option.splits)
  then have "lex ('':true,'' @ quote_string k' @ CHR '':'' # quote_string s @ ''}'')
        = Some [TColon, TTrue, TComma, TStr k', TColon, TStr s, TRBrace]"
    by (simp add: is_ws_def is_digit_def starts_with_def cons_token_def)
  then have "lex (quote_string k @ '':true,'' @ quote_string k' @ CHR '':'' # quote_string s @ ''}'')
        = Some [TStr k, TColon, TTrue, TComma, TStr k', TColon, TStr s, TRBrace]"
    by (simp add: lex_quote_string cons_token_def)
  then show ?thesis
    by (simp add: is_ws_def cons_token_def)
qed

lemma JSON_parse_done_error:
  "JSON_parse (JSON_stringify (JObj [(k, JBool True), (k', JStr s)]))
   = Some (JObj [(k, JBool True), (k', JStr s)])"
  using lex_done_error_members [of k k' s] by (simp add: JSON_parse_def)

section \<open>The stock table and the enrichment context\<close>

lemma getAllSymbols_list:
  "getAllSymbols =
     [''AAPL'', ''MSFT'', ''GOOGL'', ''AMZN'', ''NVDA'', ''TSLA'', ''META'', ''JPM'', ''V'',
      ''JNJ'', ''WMT'', ''PG'', ''UNH'', ''HD'', ''BAC'', ''DIS'', ''NFLX'', ''AMD'', ''CRM'',
      ''INTC'', ''PYPL'', ''UBER'', ''SQ'', ''SNAP'', ''COIN'']"
  by (simp add: getAllSymbols_def STOCKS_def)

lemma map_of_STOCKS_None: "map_of STOCKS k = None \<longleftrightarrow> k \<notin> set getAllSymbols"
  by (simp add: getAllSymbols_def map_of_eq_None_iff)

lemma STOCKS_basePrice_pos: "(k, st) \<in> set STOCKS \<Longrightarrow> 0 < basePrice st"
  by (auto simp: STOCKS_def)

lemma getVariation_range: "0 \<le> getVariation x \<and> getVariation x < 1"
  by (simp add: getVariation_def Let_def) linarith

lemma getStockQuote_Some:
  assumes "map_of STOCKS (toUpperCase rt s) = Some st"
  shows "\<exists>q. getStockQuote rt s = Some q \<and> symbol q = toUpperCase rt s
             \<and> name q = stock.name st \<and> sector q = stock.sector st
             \<and> previousClose q = basePrice st"
  using assms by (simp add: getStockQuote_def Let_def)

lemma colon_prefix_unique:
  "CHR '':'' \<notin> set a \<Longrightarrow> CHR '':'' \<notin> set b \<Longrightarrow> a @ CHR '':'' # x = b @ CHR '':'' # y \<Longrightarrow> a = b"
proof (induction a arbitrary: b)
  case Nil
  then show ?case by (cases b) auto
next
  case (Cons c a)
  then show ?case by (cases b) auto
qed

lemma symbols_no_colon: "k \<in> set getAllSymbols \<Longrightarrow> CHR '':'' \<notin> set k"
  by (auto simp: getAllSymbols_list)

lemma quoteSummary_symbol:
  assumes "quoteSummary rt q = quoteSummary rt q'"
    and "CHR '':'' \<notin> set (symbol q)" and "CHR '':'' \<notin> set (symbol q')"
  shows "symbol q = symbol q'"
  using assms(1) colon_prefix_unique [OF assms(2,3)]
  by (simp add: quoteSummary_def)

lemma quoteSummary_nonempty: "quoteSummary rt q \<noteq> []"
  by (simp add: quoteSummary_def)

lemma known_symbol_quote:
  assumes "toUpperCase rt k = k" and "k \<in> set getAllSymbols"
  shows "\<exists>q. getStockQuote rt k = Some q \<and> symbol q = k"
proof -
  obtain st where "map_of STOCKS (toUpperCase rt k) = Some st"
    using assms map_of_STOCKS_None [of k] by (cases "map_of STOCKS k") auto
  from getStockQuote_Some [OF this] show ?thesis
    using assms(1) by auto
qed

lemma quoteLines_map:
  assumes "\<forall>k\<in>set getAllSymbols. toUpperCase rt k = k"
  shows "quoteLines rt msg =
           map (\<lambda>s. case getStockQuote rt s of Some q \<Rightarrow> quoteSummary rt q | None \<Rightarrow> [])
               (mentionedStocks rt msg)"
proof -
  have "(case getStockQuote rt s of Some q \<Rightarrow> quoteSummary rt q | None \<Rightarrow> []) \<noteq> []"
    if "s \<in> set (mentionedStocks rt msg)" for s
  proof -
    have "s \<in> set getAllSymbols" using that by (simp add: mentionedStocks_def)
    then obtain q where "getStockQuote rt s = Some q"
      using known_symbol_quote [of rt s] assms by blast
    then show ?thesis by (simp add: quoteSummary_nonempty)
  qed
  then show ?thesis
    unfolding quoteLines_def by (simp add: filter_id_conv)
qed

lemma quote_line_mentioned:
  assumes up: "\<forall>k\<in>set getAllSymbols. toUpperCase rt k = k"
    and s: "s \<in> set getAllSymbols"
    and q: "getStockQuote rt s = Some q"
  shows "quoteSummary rt q \<in> set (quoteLines rt msg) \<longleftrightarrow> str_includes (toUpperCase rt msg) s"
proof
  assume "quoteSummary rt q \<in> set (quoteLines rt msg)"
  then obtain s' where s': "s' \<in> set (mentionedStocks rt msg)"
    and l: "quoteSummary rt q = (case getStockQuote rt s' of Some q' \<Rightarrow> quoteSummary rt q' | None \<Rightarrow> [])"
    unfolding quoteLines_map [OF up] by auto
  have k': "s' \<in> set getAllSymbols" using s' by (simp add: mentionedStocks_def)
  then obtain q' where q': "getStockQuote rt s' = Some q'" "symbol q' = s'"
    using known_symbol_quote [of rt s'] up by blast
  have "symbol q = s"
    using known_symbol_quote [of rt s] up s q by auto
  moreover have "symbol q = symbol q'"
    using l q' k' s \<open>symbol q = s\<close>
    by (intro quoteSummary_symbol [of rt]) (auto dest: symbols_no_colon)
  ultimately have "s' = s" using q'(2) by simp
  then show "str_includes (toUpperCase rt msg) s"
    using s' by (simp add: mentionedStocks_def)
next
  assume "str_includes (toUpperCase rt msg) s"
  then have "s \<in> set (mentionedStocks rt msg)"
    using s by (simp add: mentionedStocks_def)
  then show "quoteSummary rt q \<in> set (quoteLines rt msg)"
    unfolding quoteLines_map [OF up] using q by force
qed

lemma indexContext_three:
  "\<exists>a b c. getMarketIndices rt = [a, b, c]
     \<and> idx_name a = ''S&P 500'' \<and> idx_name b = ''NASDAQ'' \<and> idx_name c = ''DOW''
     \<and> indexContext rt = indexSummary rt a @ '', '' @ indexSummary rt b @ '', '' @ indexSummary rt c"
  by (simp add: getMarketIndices_def indexContext_def Let_def)

section \<open>The worked examples\<close>

lemma stub_provider_apply [simp]: "stub_provider c ms = c"
  by (simp add: stub_provider_def)

lemma scenario_fragments:
  "fragments scenario_chunks = [''Apple'', '' is'', '' strong.'']"
  by (simp add: fragments_def scenario_chunks_def text_chunk_def fragment_def)

lemma scenario_frames:
  "concat (map event_frame [EvContent ''Apple'', EvContent '' is'', EvContent '' strong.'', EvDone])
   = concat scenario_parts"
  by (simp add: event_frame_def sse_frame_def quote_string_def escape_char_def scenario_parts_def)

lemma example_upper_aapl: "toUpperCase example_runtime ''aapl'' = ''AAPL''"
  by (simp add: example_runtime_def ascii_upper_def)

lemma example_upper_symbols: "\<forall>k\<in>set getAllSymbols. toUpperCase example_runtime k = k"
  by (simp add: getAllSymbols_list example_runtime_def ascii_upper_def)

section \<open>The claims\<close>

text \<open>
  C1. The whole pipeline: when the provider's fragments end normally, the gateway writes
  one \<^verbatim>\<open>content\<close> frame per non-empty fragment (an empty fragment writes nothing) and
  then one \<^verbatim>\<open>done\<close> frame; and however the bytes written are cut into reads,
  \<^verbatim>\<open>streamChat\<close> calls \<^verbatim>\<open>onChunk\<close> once per non-empty fragment, with its exact text and
  in order, then \<^verbatim>\<open>onDone\<close> once, and never \<^verbatim>\<open>onError\<close>.
\<close>

theorem pipeline_roundtrip:
  assumes "message req \<noteq> []"
    and "prov (chatMessages rt req) = Stream chunks Completes"
    and "concat parts = concat (written (reply (handleChat rt prov req)))"
  shows "written (reply (handleChat rt prov req))
           = map (\<lambda>c. event_frame (EvContent c)) (fragments chunks) @ [event_frame EvDone]
         \<and> streamChat (delivered (reply (handleChat rt prov req)) parts)
           = map (\<lambda>c. OnChunk (JStr c)) (fragments chunks) @ [OnDone]"
proof -
  let ?res = "reply (handleChat rt prov req)"
  have res: "?res =
           \<lparr>statusCode = 200, headersSent = True,
            written = map (\<lambda>c. event_frame (EvContent c)) (fragments chunks) @ [event_frame EvDone],
            jsonBody = None, ended = True\<rparr>"
    using assms(1,2) by (rule reply_completes)
  then have w: "written ?res
      = map (\<lambda>c. event_frame (EvContent c)) (fragments chunks) @ [event_frame EvDone]"
    by simp
  have "concat parts = concat (map event_frame (map EvContent (fragments chunks) @ [EvDone])) @ []"
    using assms(3) unfolding w by (simp add: comp_def)
  then have "read_loop [] parts Closed =
           map (\<lambda>c. OnChunk (JStr c)) (filter (\<lambda>c. c \<noteq> []) (fragments chunks))
           @ (case process_line (frame_line EvDone) of
                Finish cb \<Rightarrow> [cb]
              | Emit cb \<Rightarrow> cb # read_loop [] [[]] Closed
              | Skip \<Rightarrow> read_loop [] [[]] Closed)"
    by (rule read_loop_frames)
  then have "read_loop [] parts Closed = map (\<lambda>c. OnChunk (JStr c)) (fragments chunks) @ [OnDone]"
    by (simp add: process_line_frame fragments_def)
  moreover have "res_ok ?res"
    unfolding res by (simp add: res_ok_def)
  ultimately have "streamChat (delivered ?res parts)
      = map (\<lambda>c. OnChunk (JStr c)) (fragments chunks) @ [OnDone]"
    by (simp add: delivered_def)
  with w show ?thesis by simp
qed

theorem pipeline_roundtrip_witness:
  "message scenario_request \<noteq> []
   \<and> concat scenario_parts
       = concat (written (reply (handleChat example_runtime
                                   (stub_provider (Stream scenario_chunks Completes)) scenario_request)))
   \<and> streamChat (delivered (reply (handleChat example_runtime
                                      (stub_provider (Stream scenario_chunks Completes)) scenario_request))
                            scenario_parts)
       = [OnChunk (JStr ''Apple''), OnChunk (JStr '' is''), OnChunk (JStr '' strong.''), OnDone]"
proof -
  let ?prov = "stub_provider (Stream scenario_chunks Completes)"
  have m: "message scenario_request \<noteq> []"
    by (simp add: scenario_request_def)
  have p: "?prov (chatMessages example_runtime scenario_request) = Stream scenario_chunks Completes"
    by simp
  have c: "concat scenario_parts
       = concat (written (reply (handleChat example_runtime ?prov scenario_request)))"
    using scenario_frames
      reply_completes [of scenario_request ?prov example_runtime scenario_chunks, OF m p]
    by (simp add: scenario_fragments)
  show ?thesis
    using m c
      pipeline_roundtrip [of scenario_request ?prov example_runtime scenario_chunks scenario_parts,
                          OF m p c]
    by (simp add: scenario_fragments)
qed

text \<open>
  C2 (as amended). When \<^verbatim>\<open>message\<close> is the empty string the gateway never calls the
  provider and writes no frame: it answers at once with status 400 and the JSON body
  \<^verbatim>\<open>{"error": "Message required"}\<close>. (A message of white space only is not empty for
  the test \<^verbatim>\<open>!message\<close>, see the counterexample.)
\<close>

theorem empty_message_rejected:
  assumes "message req = []"
  shows "upstream (handleChat rt prov req) = None
         \<and> written (reply (handleChat rt prov req)) = []
         \<and> statusCode (reply (handleChat rt prov req)) = 400
         \<and> jsonBody (reply (handleChat rt prov req))
             = Some (JObj [(''error'', JStr ''Message required'')])
         \<and> ended (reply (handleChat rt prov req))"
  using assms reply_empty_message [OF assms, of rt prov]
  by (simp add: handleChat_def)

theorem empty_message_rejected_witness:
  "message \<lparr>message = [], history = []\<rparr> = []
   \<and> written (reply (handleChat example_runtime (stub_provider (Stream scenario_chunks Completes))
                                  \<lparr>message = [], history = []\<rparr>)) = []
   \<and> statusCode (reply (handleChat example_runtime (stub_provider (Stream scenario_chunks Completes))
                                     \<lparr>message = [], history = []\<rparr>)) = 400"
  using empty_message_rejected [of "\<lparr>message = [], history = []\<rparr>" example_runtime
                                   "stub_provider (Stream scenario_chunks Completes)"]
  by simp

text \<open>
  The claim as stated fails on a message of one space: the gateway calls the provider
  and streams its answer with status 200.
\<close>

theorem whitespace_message_streams:
  "whitespace_only '' ''
   \<and> written (reply (handleChat example_runtime (stub_provider (Stream [text_chunk ''ok''] Completes))
                                  \<lparr>message = '' '', history = []\<rparr>))
       = [event_frame (EvContent ''ok''), event_frame EvDone]
   \<and> statusCode (reply (handleChat example_runtime (stub_provider (Stream [text_chunk ''ok''] Completes))
                                     \<lparr>message = '' '', history = []\<rparr>)) = 200
   \<and> jsonBody (reply (handleChat example_runtime (stub_provider (Stream [text_chunk ''ok''] Completes))
                                   \<lparr>message = '' '', history = []\<rparr>)) = None"
proof -
  let ?req = "\<lparr>message = '' '', history = []\<rparr>"
  let ?prov = "stub_provider (Stream [text_chunk ''ok''] Completes)"
  have m: "message ?req \<noteq> []" by simp
  have p: "?prov (chatMessages example_runtime ?req) = Stream [text_chunk ''ok''] Completes"
    by simp
  have f: "fragments [text_chunk ''ok''] = [''ok'']"
    by (simp add: fragments_def text_chunk_def fragment_def)
  have w: "whitespace_only '' ''"
    by (simp add: whitespace_only_def is_ws_def)
  show ?thesis
    using w m reply_completes [of ?req ?prov example_runtime "[text_chunk ''ok'']"]
    by (simp add: f)
qed

text \<open>
  C3. Whatever the request and whatever the provider does (rejects, or yields any chunks
  and then completes or raises), the frames the gateway writes are the frames of exactly
  one sequence of events, and that sequence has at most one terminal event and no
  \<^verbatim>\<open>content\<close> event after a terminal one.
\<close>

theorem one_terminal_event:
  "\<exists>evs. written (reply (handleChat rt prov req)) = map event_frame evs
         \<and> (\<forall>evs'. written (reply (handleChat rt prov req)) = map event_frame evs' \<longrightarrow> evs' = evs)
         \<and> length (filter is_terminal evs) \<le> 1
         \<and> no_content_after_terminal evs"
proof -
  let ?w = "written (reply (handleChat rt prov req))"
  have "\<exists>evs. ?w = map event_frame evs
         \<and> length (filter is_terminal evs) \<le> 1 \<and> no_content_after_terminal evs"
  proof (cases "message req = []")
    case True
    then have "?w = map event_frame []"
      by (simp add: reply_empty_message)
    then show ?thesis by force
  next
    case False
    show ?thesis
    proof (cases "prov (chatMessages rt req)")
      case Rejected
      then have "?w = map event_frame []"
        using False by (simp add: reply_rejected)
      then show ?thesis by force
    next
      case (Stream chunks e)
      show ?thesis
      proof (cases e)
        case Completes
        then have "?w = map event_frame (map EvContent (fragments chunks) @ [EvDone])"
          using False Stream by (simp add: reply_completes comp_def)
        then show ?thesis
          using contents_then_terminal [of EvDone "fragments chunks"] by force
      next
        case Raises
        show ?thesis
        proof (cases "fragments chunks = []")
          case True
          then have "?w = map event_frame []"
            using False Stream Raises by (simp add: reply_raises)
          then show ?thesis by force
        next
          case nonempty: False
          then have "?w = map event_frame
                       (map EvContent (fragments chunks) @ [EvError ''AI service error''])"
            using False Stream Raises by (simp add: reply_raises comp_def)
          then show ?thesis
            using contents_then_terminal [of "EvError ''AI service error''" "fragments chunks"]
            by force
        qed
      qed
    qed
  qed
  then obtain evs where evs: "?w = map event_frame evs"
    "length (filter is_terminal evs) \<le> 1" "no_content_after_terminal evs"
    by blast
  have "\<forall>evs'. ?w = map event_frame evs' \<longrightarrow> evs' = evs"
    using evs(1) map_event_frame_inj by metis
  with evs show ?thesis by blast
qed

theorem one_terminal_event_witness:
  "written (reply (handleChat example_runtime (stub_provider (Stream scenario_chunks Raises))
                              scenario_request))
     = map event_frame [EvContent ''Apple'', EvContent '' is'', EvContent '' strong.'',
                        EvError ''AI service error'']
   \<and> length (filter is_terminal [EvContent ''Apple'', EvContent '' is'', EvContent '' strong.'',
                                 EvError ''AI service error'']) \<le> 1
   \<and> no_content_after_terminal [EvContent ''Apple'', EvContent '' is'', EvContent '' strong.'',
                                EvError ''AI service error'']"
proof -
  let ?prov = "stub_provider (Stream scenario_chunks Raises)"
  let ?w = "written (reply (handleChat example_runtime ?prov scenario_request))"
  let ?evs = "[EvContent ''Apple'', EvContent '' is'', EvContent '' strong.'',
               EvError ''AI service error'']"
  have m: "message scenario_request \<noteq> []"
    by (simp add: scenario_request_def)
  have p: "?prov (chatMessages example_runtime scenario_request) = Stream scenario_chunks Raises"
    by simp
  have w: "?w = map event_frame ?evs"
    using m reply_raises [of scenario_request ?prov example_runtime scenario_chunks]
    by (simp add: scenario_fragments)
  obtain evs where evs: "?w = map event_frame evs"
    "\<forall>evs'. ?w = map event_frame evs' \<longrightarrow> evs' = evs"
    "length (filter is_terminal evs) \<le> 1" "no_content_after_terminal evs"
    using one_terminal_event [of example_runtime ?prov scenario_request] by blast
  have "evs = ?evs" using evs(2) w by metis
  with evs(3,4) w show ?thesis by simp
qed

text \<open>
  C4. For a non-empty message (upper-casing leaving the known symbols as they are), the
  system message sent upstream carries the context block; the block is the index line,
  always, followed by the quote lines when a symbol is mentioned; there is one quote
  line per mentioned symbol and no other; the line of a known symbol \<open>s\<close> is among them
  if and only if the upper-cased message includes \<open>s\<close>; when no known symbol is included
  the block is the index line alone; and the index line lists S&P 500, NASDAQ and DOW,
  each with its value and change percent.
\<close>

theorem enrichment_context:
  assumes "message req \<noteq> []"
    and "\<forall>k\<in>set getAllSymbols. toUpperCase rt k = k"
    and "s \<in> set getAllSymbols"
  shows "(\<exists>rest. upstream (handleChat rt prov req)
            = Some (\<lparr>role = ''system'',
                      content = systemPersona @ [NL, NL] @ contextBlock rt (message req)
                                @ [NL, NL] @ systemRules\<rparr> # rest))
         \<and> contextBlock rt (message req)
             = ''Current market indices: '' @ indexContext rt
               @ (if mentionedStocks rt (message req) = [] then []
                  else [NL, NL] @ ''Current market data:'' @ [NL]
                       @ join [NL] (quoteLines rt (message req)))
         \<and> length (quoteLines rt (message req)) = length (mentionedStocks rt (message req))
         \<and> (\<exists>q. getStockQuote rt s = Some q \<and> symbol q = s
                \<and> (quoteSummary rt q \<in> set (quoteLines rt (message req))
                     \<longleftrightarrow> str_includes (toUpperCase rt (message req)) s))
         \<and> ((\<forall>k\<in>set getAllSymbols. \<not> str_includes (toUpperCase rt (message req)) k)
              \<longrightarrow> contextBlock rt (message req) = ''Current market indices: '' @ indexContext rt)
         \<and> (\<exists>a b c. getMarketIndices rt = [a, b, c]
                \<and> idx_name a = ''S&P 500'' \<and> idx_name b = ''NASDAQ'' \<and> idx_name c = ''DOW''
                \<and> indexContext rt
                    = indexSummary rt a @ '', '' @ indexSummary rt b @ '', '' @ indexSummary rt c
                \<and> (\<forall>i\<in>{a, b, c}. indexSummary rt i
                      = idx_name i @ '': '' @ numToString rt (idx_value i)
                        @ '' ('' @ signed (idx_change i) @ numToString rt (idx_changePercent i)
                        @ ''%)''))"
proof -
  let ?msg = "message req"
  have sent: "\<exists>rest. upstream (handleChat rt prov req)
            = Some (\<lparr>role = ''system'',
                      content = systemPersona @ [NL, NL] @ contextBlock rt ?msg
                                @ [NL, NL] @ systemRules\<rparr> # rest)"
    using assms(1) by (simp add: handleChat_def Let_def chatMessages_def systemContent_def)
  have block: "contextBlock rt ?msg
             = ''Current market indices: '' @ indexContext rt
               @ (if mentionedStocks rt ?msg = [] then []
                  else [NL, NL] @ ''Current market data:'' @ [NL] @ join [NL] (quoteLines rt ?msg))"
    by (simp add: contextBlock_def stockContext_def)
  have count: "length (quoteLines rt ?msg) = length (mentionedStocks rt ?msg)"
    by (simp add: quoteLines_map [OF assms(2)])
  obtain q where q: "getStockQuote rt s = Some q" "symbol q = s"
    using known_symbol_quote [of rt s] assms(2,3) by blast
  have line: "quoteSummary rt q \<in> set (quoteLines rt ?msg) \<longleftrightarrow> str_includes (toUpperCase rt ?msg) s"
    using assms(2,3) q(1) by (rule quote_line_mentioned)
  have none: "contextBlock rt ?msg = ''Current market indices: '' @ indexContext rt"
    if no_match: "\<forall>k\<in>set getAllSymbols. \<not> str_includes (toUpperCase rt ?msg) k"
  proof -
    have "mentionedStocks rt ?msg = []"
      using no_match by (simp add: mentionedStocks_def filter_empty_conv)
    then show ?thesis by (simp add: block)
  qed
  obtain a b c where idx: "getMarketIndices rt = [a, b, c]"
      "idx_name a = ''S&P 500''" "idx_name b = ''NASDAQ''" "idx_name c = ''DOW''"
      "indexContext rt = indexSummary rt a @ '', '' @ indexSummary rt b @ '', '' @ indexSummary rt c"
    using indexContext_three [of rt] by blast
  have fmt: "\<forall>i\<in>{a, b, c}. indexSummary rt i
                      = idx_name i @ '': '' @ numToString rt (idx_value i)
                        @ '' ('' @ signed (idx_change i) @ numToString rt (idx_changePercent i)
                        @ ''%)''"
    by (simp add: indexSummary_def)
  from sent block count q line none idx fmt show ?thesis by blast
qed

theorem enrichment_context_witness:
  "message scenario_request \<noteq> []
   \<and> map (toUpperCase example_runtime) getAllSymbols = getAllSymbols
   \<and> ''AAPL'' \<in> set getAllSymbols \<and> ''MSFT'' \<in> set getAllSymbols
   \<and> (\<exists>q. getStockQuote example_runtime ''AAPL'' = Some q
          \<and> quoteSummary example_runtime q
               \<in> set (quoteLines example_runtime (message scenario_request)))
   \<and> (\<exists>q. getStockQuote example_runtime ''MSFT'' = Some q
          \<and> quoteSummary example_runtime q
               \<notin> set (quoteLines example_runtime (message scenario_request)))"
proof -
  let ?p = "stub_provider (Rejected)"
  have m: "message scenario_request \<noteq> []"
    by (simp add: scenario_request_def)
  have a: "''AAPL'' \<in> set getAllSymbols" and b: "''MSFT'' \<in> set getAllSymbols"
    by (simp_all add: getAllSymbols_list)
  have u: "toUpperCase example_runtime (message scenario_request) = ''ANALYZE AAPL''"
    by (simp add: scenario_request_def example_runtime_def ascii_upper_def)
  have ia: "str_includes ''ANALYZE AAPL'' ''AAPL''"
    by (simp add: starts_with_def)
  have ib: "\<not> str_includes ''ANALYZE AAPL'' ''MSFT''"
    by (simp add: starts_with_def)
  have f: "map (toUpperCase example_runtime) getAllSymbols = getAllSymbols"
    using example_upper_symbols by (simp add: map_idI)
  show ?thesis
    using m a b f
      enrichment_context [OF m example_upper_symbols a, of ?p]
      enrichment_context [OF m example_upper_symbols b, of ?p]
    unfolding u using ia ib by blast
qed

text \<open>
  C5. When the provider's stream raises after at least one non-empty fragment, so that
  at least one \<^verbatim>\<open>content\<close> frame is out, the gateway writes one \<^verbatim>\<open>error\<close> frame with
  the message \<^verbatim>\<open>AI service error\<close> after the frames already written, which stay as they
  were, ends the response, and sends no JSON error body.
\<close>

theorem midstream_failure:
  assumes "message req \<noteq> []"
    and "prov (chatMessages rt req) = Stream chunks Raises"
    and "fragments chunks \<noteq> []"
  shows "written (forward chunks fresh_response)
           = map (\<lambda>c. event_frame (EvContent c)) (fragments chunks)
         \<and> written (reply (handleChat rt prov req))
           = written (forward chunks fresh_response) @ [event_frame (EvError ''AI service error'')]
         \<and> ended (reply (handleChat rt prov req))
         \<and> statusCode (reply (handleChat rt prov req)) = 200
         \<and> jsonBody (reply (handleChat rt prov req)) = None"
  using assms reply_raises [of req prov rt chunks]
  by (simp add: forward_written fresh_response_def)

theorem midstream_failure_witness:
  "message scenario_request \<noteq> []
   \<and> fragments [text_chunk ''Apple''] \<noteq> []
   \<and> written (reply (handleChat example_runtime (stub_provider (Stream [text_chunk ''Apple''] Raises))
                                  scenario_request))
       = [event_frame (EvContent ''Apple''), event_frame (EvError ''AI service error'')]"
proof -
  let ?prov = "stub_provider (Stream [text_chunk ''Apple''] Raises)"
  have m: "message scenario_request \<noteq> []"
    by (simp add: scenario_request_def)
  have p: "?prov (chatMessages example_runtime scenario_request)
           = Stream [text_chunk ''Apple''] Raises"
    by simp
  have f: "fragments [text_chunk ''Apple''] = [''Apple'']"
    by (simp add: fragments_def text_chunk_def fragment_def)
  then have n: "fragments [text_chunk ''Apple''] \<noteq> []" by simp
  show ?thesis
    using m n midstream_failure [of scenario_request ?prov example_runtime "[text_chunk ''Apple'']"]
    by (simp add: f)
qed

text \<open>
  C6 (as amended). When the stream is the frames of some \<^verbatim>\<open>content\<close> events followed by
  the frame of an \<^verbatim>\<open>error\<close> event with a non-empty message, then however it is cut
  into reads, and whatever bytes or read failure come after, \<^verbatim>\<open>streamChat\<close> calls
  \<^verbatim>\<open>onChunk\<close> for the non-empty contents, then \<^verbatim>\<open>onError\<close> exactly once with exactly
  that message, and nothing after it.
\<close>

theorem error_frame_ends_stream:
  assumes "m \<noteq> []"
    and "concat parts = concat (map event_frame (map EvContent cs @ [EvError m])) @ t"
  shows "streamChat (Fetched True (Some (parts, e)))
         = map (\<lambda>c. OnChunk (JStr c)) (filter (\<lambda>c. c \<noteq> []) cs) @ [OnError (JStr m)]"
  using assms(1) read_loop_frames [OF assms(2), of e]
  by (simp add: process_line_frame)

theorem error_frame_ends_stream_witness:
  "''AI service error'' \<noteq> []
   \<and> streamChat (Fetched True (Some
        ([event_frame (EvContent ''Apple''), event_frame (EvError ''AI service error'')], Closed)))
     = [OnChunk (JStr ''Apple''), OnError (JStr ''AI service error'')]"
  using error_frame_ends_stream [of "''AI service error''"
          "[event_frame (EvContent ''Apple''), event_frame (EvError ''AI service error'')]"
          "[''Apple'']" "[]" Closed]
  by simp

text \<open>
  The claim as stated fails on the frame \<^verbatim>\<open>{"error":""}\<close>: the empty message is falsy,
  \<^verbatim>\<open>onError\<close> is never called, and the end of the stream calls \<^verbatim>\<open>onDone\<close>.
\<close>

theorem empty_error_frame_ignored:
  \<open>event_frame (EvError []) = ''data: {"error":""}'' @ [NL, NL]
   \<and> streamChat (Fetched True (Some ([''data: {"error":""}'' @ [NL, NL]], Closed))) = [OnDone]\<close>
proof -
  have f: \<open>event_frame (EvError []) = ''data: {"error":""}'' @ [NL, NL]\<close>
    by (simp add: event_frame_def sse_frame_def quote_string_def escape_char_def)
  have "concat [event_frame (EvError [])] = concat (map event_frame (map EvContent [] @ [EvError []])) @ []"
    by simp
  from read_loop_frames [OF this, of Closed]
  have "streamChat (Fetched True (Some ([event_frame (EvError [])], Closed))) = [OnDone]"
    by (simp add: process_line_frame pop_or_empty_def)
  then show ?thesis
    unfolding f using f by simp
qed

text \<open>
  C7. When the reader reports the end of a stream none of whose complete lines is a
  frame that dispatches as \<^verbatim>\<open>done\<close> or \<^verbatim>\<open>error\<close>, \<^verbatim>\<open>streamChat\<close> has called
  \<^verbatim>\<open>onChunk\<close> only, and then calls \<^verbatim>\<open>onDone\<close> exactly once, as its last callback.
\<close>

theorem stream_end_calls_onDone:
  assumes "list_all (\<lambda>l. \<not> is_finish (process_line l)) (complete_lines (concat parts))"
  shows "\<exists>vs. streamChat (Fetched True (Some (parts, Closed))) = map OnChunk vs @ [OnDone]"
proof -
  obtain vs where "process_lines (butlast (split_nl (concat parts))) = (map OnChunk vs, False)"
    using process_lines_no_finish [OF assms [unfolded complete_lines_def]] by blast
  then have "read_loop [] parts Closed = map OnChunk vs @ [OnDone]"
    using read_loop_lines [of "[]" parts Closed] by simp
  then have "streamChat (Fetched True (Some (parts, Closed))) = map OnChunk vs @ [OnDone]"
    by simp
  then show ?thesis by blast
qed


theorem stream_end_calls_onDone_witness:
  \<open>list_all (\<lambda>l. \<not> is_finish (process_line l))
     (complete_lines (concat [''data: {"content":"Hi"}'' @ [NL], ''data: {"done":true}'']))
   \<and> streamChat (Fetched True (Some
        ([''data: {"content":"Hi"}'' @ [NL], ''data: {"done":true}''], Closed)))
     = [OnChunk (JStr ''Hi''), OnDone]\<close>
proof -
  let ?parts = \<open>[''data: {"content":"Hi"}'' @ [NL], ''data: {"done":true}'']\<close>
  have l: \<open>complete_lines (concat ?parts) = [''data: {"content":"Hi"}'']\<close>
    by (simp add: complete_lines_def)
  have p: \<open>process_line ''data: {"content":"Hi"}'' = Emit (OnChunk (JStr ''Hi''))\<close>
    using process_line_frame [of "EvContent ''Hi''"]
    by (simp add: frame_line_def quote_string_def escape_char_def)
  have h: "list_all (\<lambda>l. \<not> is_finish (process_line l)) (complete_lines (concat ?parts))"
    unfolding l by (simp add: p)
  obtain vs where vs: "streamChat (Fetched True (Some (?parts, Closed))) = map OnChunk vs @ [OnDone]"
    using stream_end_calls_onDone [OF h] by blast
  have "read_loop [] ?parts Closed = [OnChunk (JStr ''Hi''), OnDone]"
    using read_loop_lines [of "[]" ?parts Closed] l p
    by (simp add: complete_lines_def)
  then show ?thesis using h vs by simp
qed

text \<open>
  C8. A complete line that starts with \<^verbatim>\<open>data: \<close> but whose remainder \<^verbatim>\<open>JSON.parse\<close>
  rejects, and likewise a complete line without that prefix, makes no callback and does
  not end the loop: the callbacks of the stream are those of the same stream without
  that line, however either stream is cut into reads and however it ends.
\<close>

theorem malformed_line_skipped:
  assumes "(starts_with l ''data: '' \<and> JSON_parse (drop 6 l) = None) \<or> \<not> starts_with l ''data: ''"
    and "NL \<notin> set l"
    and "pre = [] \<or> last pre = NL"
    and "concat parts = pre @ l @ NL # post"
    and "concat parts' = pre @ post"
  shows "process_line l = Skip
         \<and> streamChat (Fetched True (Some (parts, e))) = streamChat (Fetched True (Some (parts', e)))"
proof -
  have skip: "process_line l = Skip"
    using assms(1) by (auto simp: process_line_def)
  have b: "last (split_nl pre) = []"
    using assms(3) by (rule last_split_nl_boundary)
  have "split_nl (concat parts) = butlast (split_nl pre) @ split_nl (l @ NL # post)"
    unfolding assms(4) using split_nl_append [of pre "l @ NL # post"] b by simp
  then have lines: "butlast (split_nl (concat parts))
                    = butlast (split_nl pre) @ l # butlast (split_nl post)"
    using split_nl_line [OF assms(2), of post]
    by (simp add: butlast_append split_nl_nonempty)
  have "split_nl (concat parts') = butlast (split_nl pre) @ split_nl post"
    unfolding assms(5) using split_nl_append [of pre post] b by simp
  then have lines': "butlast (split_nl (concat parts'))
                     = butlast (split_nl pre) @ butlast (split_nl post)"
    by (simp add: butlast_append split_nl_nonempty)
  have "process_lines (butlast (split_nl (concat parts)))
        = process_lines (butlast (split_nl (concat parts')))"
    unfolding lines lines' using skip by (rule process_lines_skip)
  then have "read_loop [] parts e = read_loop [] parts' e"
    using read_loop_lines [of "[]" parts e] read_loop_lines [of "[]" parts' e] by simp
  with skip show ?thesis by simp
qed


theorem malformed_line_skipped_witness:
  \<open>starts_with ''data: {oops'' ''data: '' \<and> JSON_parse (drop 6 ''data: {oops'') = None
   \<and> streamChat (Fetched True (Some
        ([event_frame (EvContent ''Apple'') @ ''data: {oops'' @ NL # event_frame EvDone], Closed)))
     = [OnChunk (JStr ''Apple''), OnDone]
   \<and> \<not> starts_with '': keep-alive'' ''data: ''
   \<and> streamChat (Fetched True (Some
        ([event_frame (EvContent ''Apple'') @ '': keep-alive'' @ NL # event_frame EvDone], Closed)))
     = [OnChunk (JStr ''Apple''), OnDone]\<close>
proof -
  let ?pre = "event_frame (EvContent ''Apple'')"
  let ?post = "event_frame EvDone"
  have bad: "starts_with ''data: {oops'' ''data: '' \<and> JSON_parse (drop 6 ''data: {oops'') = None"
    by (simp add: starts_with_def JSON_parse_def is_ws_def is_digit_def cons_token_def)
  then have h1: "(starts_with ''data: {oops'' ''data: '' \<and> JSON_parse (drop 6 ''data: {oops'') = None)
                 \<or> \<not> starts_with ''data: {oops'' ''data: ''"
    by blast
  have other: "\<not> starts_with '': keep-alive'' ''data: ''"
    by (simp add: starts_with_def)
  then have k1: "(starts_with '': keep-alive'' ''data: '' \<and> JSON_parse (drop 6 '': keep-alive'') = None)
                 \<or> \<not> starts_with '': keep-alive'' ''data: ''"
    by blast
  have h2: "NL \<notin> set ''data: {oops''" by simp
  have k2: "NL \<notin> set '': keep-alive''" by simp
  have h3: "?pre = [] \<or> last ?pre = NL" by (simp add: event_frame_line)
  have h4: "concat [?pre @ ''data: {oops'' @ NL # ?post] = ?pre @ ''data: {oops'' @ NL # ?post"
    by simp
  have k4: "concat [?pre @ '': keep-alive'' @ NL # ?post] = ?pre @ '': keep-alive'' @ NL # ?post"
    by simp
  have h5: "concat [?pre @ ?post] = ?pre @ ?post" by simp
  have "concat [?pre @ ?post] = concat (map event_frame (map EvContent [''Apple''] @ [EvDone])) @ []"
    by simp
  from read_loop_frames [OF this, of Closed]
  have "streamChat (Fetched True (Some ([?pre @ ?post], Closed))) = [OnChunk (JStr ''Apple''), OnDone]"
    by (simp add: process_line_frame)
  then show ?thesis
    using bad other
      malformed_line_skipped [OF h1 h2 h3 h4 h5, of Closed]
      malformed_line_skipped [OF k1 k2 h3 k4 h5, of Closed]
    by simp
qed

text \<open>
  C9. \<^verbatim>\<open>getStockQuote\<close> looks the symbol up in upper case, so (upper-casing being
  idempotent on \<open>s\<close>) it gives the same quote for \<open>s\<close> and for its upper-case form at the
  same clock time; it gives \<^verbatim>\<open>null\<close> exactly when the upper-case form is not one of the
  25 keys of \<open>STOCKS\<close>; and for a key it returns a quote, all of whose fields are set,
  with the key as symbol and the table's name, sector and base price. No step can fail:
  the two divisors of the computation are the base price, which is positive, and
  \<open>15 + dayVar * 30\<close> with \<open>dayVar\<close> a variation, which lies in \<open>[0, 1)\<close>.
\<close>

theorem getStockQuote_case_insensitive:
  assumes "toUpperCase rt (toUpperCase rt s) = toUpperCase rt s"
  shows "getStockQuote rt s = getStockQuote rt (toUpperCase rt s)
         \<and> (getStockQuote rt s = None \<longleftrightarrow> toUpperCase rt s \<notin> set getAllSymbols)
         \<and> length getAllSymbols = 25 \<and> distinct getAllSymbols
         \<and> (toUpperCase rt s \<in> set getAllSymbols \<longrightarrow>
              (\<exists>q st. getStockQuote rt s = Some q \<and> (toUpperCase rt s, st) \<in> set STOCKS
                     \<and> symbol q = toUpperCase rt s \<and> name q = stock.name st
                     \<and> sector q = stock.sector st \<and> previousClose q = basePrice st
                     \<and> 0 < previousClose q))
         \<and> 0 \<le> getVariation x \<and> getVariation x < 1"
proof -
  have same: "getStockQuote rt s = getStockQuote rt (toUpperCase rt s)"
    unfolding getStockQuote_def assms by (rule refl)
  have none: "getStockQuote rt s = None \<longleftrightarrow> toUpperCase rt s \<notin> set getAllSymbols"
    using map_of_STOCKS_None [of "toUpperCase rt s"]
    by (auto simp: getStockQuote_def Let_def split: option.splits)
  have count: "length getAllSymbols = 25 \<and> distinct getAllSymbols"
    by (simp add: getAllSymbols_list)
  have known: "\<exists>q st. getStockQuote rt s = Some q \<and> (toUpperCase rt s, st) \<in> set STOCKS
                     \<and> symbol q = toUpperCase rt s \<and> name q = stock.name st
                     \<and> sector q = stock.sector st \<and> previousClose q = basePrice st
                     \<and> 0 < previousClose q"
    if known_symbol: "toUpperCase rt s \<in> set getAllSymbols"
  proof -
    obtain st where st: "map_of STOCKS (toUpperCase rt s) = Some st"
      using known_symbol map_of_STOCKS_None [of "toUpperCase rt s"]
      by (cases "map_of STOCKS (toUpperCase rt s)") auto
    then have row: "(toUpperCase rt s, st) \<in> set STOCKS"
      by (rule map_of_SomeD)
    then have "0 < basePrice st"
      by (rule STOCKS_basePrice_pos)
    with row getStockQuote_Some [OF st] show ?thesis by force
  qed
  from same none count known getVariation_range [of x] show ?thesis by blast
qed

theorem getStockQuote_case_insensitive_witness:
  "toUpperCase example_runtime (toUpperCase example_runtime ''aapl'')
     = toUpperCase example_runtime ''aapl''
   \<and> getStockQuote example_runtime ''aapl'' = getStockQuote example_runtime ''AAPL''
   \<and> getStockQuote example_runtime ''aapl'' \<noteq> None"
proof -
  have u: "toUpperCase example_runtime ''AAPL'' = ''AAPL''"
    using example_upper_symbols by (simp add: getAllSymbols_list)
  have h: "toUpperCase example_runtime (toUpperCase example_runtime ''aapl'')
           = toUpperCase example_runtime ''aapl''"
    by (simp only: example_upper_aapl u)
  have k: "''AAPL'' \<in> set getAllSymbols" by (simp add: getAllSymbols_list)
  from getStockQuote_case_insensitive [OF h]
  have "getStockQuote example_runtime ''aapl''
          = getStockQuote example_runtime (toUpperCase example_runtime ''aapl'')"
    and "getStockQuote example_runtime ''aapl'' = None
          \<longleftrightarrow> toUpperCase example_runtime ''aapl'' \<notin> set getAllSymbols"
    by blast+
  then show ?thesis
    using h k by (simp add: example_upper_aapl)
qed

text \<open>
  C10. The dispatch of a parsed frame tests \<^verbatim>\<open>done\<close>, then \<^verbatim>\<open>error\<close>, then
  \<^verbatim>\<open>content\<close>, each for truthiness: a truthy \<^verbatim>\<open>done\<close> calls \<^verbatim>\<open>onDone\<close> and returns
  whatever the other fields are; otherwise a truthy \<^verbatim>\<open>error\<close> calls \<^verbatim>\<open>onError\<close> with it
  and returns; otherwise a truthy \<^verbatim>\<open>content\<close> calls \<^verbatim>\<open>onChunk\<close> with it; a frame whose
  \<^verbatim>\<open>done\<close> is \<^verbatim>\<open>false\<close> or absent and whose \<^verbatim>\<open>error\<close> and \<^verbatim>\<open>content\<close> are empty
  strings calls nothing. On the wire, the line \<^verbatim>\<open>data: {"error":""}\<close> makes no callback
  and the loop goes on to the next line, and a line with \<^verbatim>\<open>"done":true\<close> and an
  \<^verbatim>\<open>error\<close> member dispatches as \<^verbatim>\<open>done\<close>.
\<close>

theorem dispatch_by_truthiness:
  "(truthy (map_of (rev ms) ''done'') \<longrightarrow> dispatch (JObj ms) = Finish OnDone)
   \<and> (\<not> truthy (map_of (rev ms) ''done'') \<and> map_of (rev ms) ''error'' = Some ev \<and> truthy (Some ev)
        \<longrightarrow> dispatch (JObj ms) = Finish (OnError ev))
   \<and> (\<not> truthy (map_of (rev ms) ''done'') \<and> \<not> truthy (map_of (rev ms) ''error'')
        \<and> map_of (rev ms) ''content'' = Some cv \<and> truthy (Some cv)
        \<longrightarrow> dispatch (JObj ms) = Emit (OnChunk cv))
   \<and> (map_of (rev ms) ''done'' \<in> {None, Some (JBool False)}
        \<and> map_of (rev ms) ''error'' = Some (JStr [])
        \<and> map_of (rev ms) ''content'' = Some (JStr [])
        \<longrightarrow> dispatch (JObj ms) = Skip)
   \<and> process_lines ((''data: '' @ JSON_stringify (JObj [(''error'', JStr [])])) # ls)
       = process_lines ls
   \<and> process_line (''data: '' @ JSON_stringify (JObj [(''done'', JBool True), (''error'', JStr m)]))
       = Finish OnDone"
proof -
  have "process_line (''data: '' @ JSON_stringify (JObj [(''done'', JBool True), (''error'', JStr m)]))
        = Finish OnDone"
    by (simp only: process_line_data JSON_parse_done_error)
       (simp add: dispatch_def if_truthy_def)
  moreover have "process_lines ((''data: '' @ JSON_stringify (JObj [(''error'', JStr [])])) # ls)
                 = process_lines ls"
    using process_line_error [of "[]"] by simp
  ultimately show ?thesis
    by (auto simp: dispatch_def if_truthy_def split: option.splits)
qed

theorem dispatch_by_truthiness_witness:
  \<open>truthy (map_of (rev [(''done'', JNum ''1''), (''error'', JStr ''x'')]) ''done'')
   \<and> dispatch (JObj [(''done'', JNum ''1''), (''error'', JStr ''x'')]) = Finish OnDone
   \<and> \<not> truthy (map_of (rev [(''done'', JBool False), (''error'', JStr ''x'')]) ''done'')
   \<and> dispatch (JObj [(''done'', JBool False), (''error'', JStr ''x'')]) = Finish (OnError (JStr ''x''))
   \<and> dispatch (JObj [(''error'', JStr []), (''content'', JStr [])]) = Skip
   \<and> process_lines [''data: {"error":""}'', ''data: {"content":"next"}'']
       = ([OnChunk (JStr ''next'')], False)\<close>
proof -
  have z: "\<not> num_is_zero ''1''"
    by (simp add: num_is_zero_def num_parts_def digits_value_def is_digit_def)
  have a: "truthy (map_of (rev [(''done'', JNum ''1''), (''error'', JStr ''x'')]) ''done'')"
    using z by simp
  have b: "\<not> truthy (map_of (rev [(''done'', JBool False), (''error'', JStr ''x'')]) ''done'')"
    by simp
  have n: \<open>process_line ''data: {"content":"next"}'' = Emit (OnChunk (JStr ''next''))\<close>
    using process_line_frame [of "EvContent ''next''"]
    by (simp add: frame_line_def quote_string_def escape_char_def)
  have e: \<open>''data: {"error":""}'' = ''data: '' @ JSON_stringify (JObj [(''error'', JStr [])])\<close>
    by (simp add: quote_string_def escape_char_def)
  show ?thesis
    using a b
      dispatch_by_truthiness [of "[(''done'', JNum ''1''), (''error'', JStr ''x'')]"]
      dispatch_by_truthiness [of "[(''done'', JBool False), (''error'', JStr ''x'')]" "JStr ''x''"]
      dispatch_by_truthiness [of "[(''error'', JStr []), (''content'', JStr [])]" _ _
                                 \<open>[''data: {"content":"next"}'']\<close>]
    unfolding e [symmetric]
    by (simp add: n)
qed

end
